theory Spec2Isabelle
  imports Complex_Main "HOL-Library.Word"
begin


section \<open>IPC framing: protocol constants\<close>

text \<open>
  The message types of \<^verbatim>\<open>src/ipc/protocol.ts\<close>, with their wire values.  A frame is
  \<^verbatim>\<open>[length: u32 LE][type: u8][flags: u8][seq: u16 LE][payload]\<close>.
\<close>

datatype MessageType =
    INIT | READY | SHUTDOWN | PING | PONG | ERROR | ACK
  | SURFACE_FULL | SURFACE_DELTA | CHAIN_FULL | CHAIN_DELTA | TIMESERIES | DISPERSION
  | SET_DATA | APPEND_DATA | CLEAR | SCROLL | FOCUS | RESIZE | SET_TITLE
  | SELECTED | CLICKED | SUBMITTED | KEY_PRESSED | SCROLL_CHANGED
  | RENDER_REQUEST | RENDER_RESULT
  | CONFIG_UPDATE | WIRING_UPDATE

fun MessageType_value :: "MessageType \<Rightarrow> nat" where
  "MessageType_value INIT = 0x00"
| "MessageType_value READY = 0x01"
| "MessageType_value SHUTDOWN = 0x02"
| "MessageType_value PING = 0x03"
| "MessageType_value PONG = 0x04"
| "MessageType_value ERROR = 0x05"
| "MessageType_value ACK = 0x06"
| "MessageType_value SURFACE_FULL = 0x10"
| "MessageType_value SURFACE_DELTA = 0x11"
| "MessageType_value CHAIN_FULL = 0x12"
| "MessageType_value CHAIN_DELTA = 0x13"
| "MessageType_value TIMESERIES = 0x14"
| "MessageType_value DISPERSION = 0x15"
| "MessageType_value SET_DATA = 0x20"
| "MessageType_value APPEND_DATA = 0x21"
| "MessageType_value CLEAR = 0x22"
| "MessageType_value SCROLL = 0x23"
| "MessageType_value FOCUS = 0x24"
| "MessageType_value RESIZE = 0x25"
| "MessageType_value SET_TITLE = 0x26"
| "MessageType_value SELECTED = 0x30"
| "MessageType_value CLICKED = 0x31"
| "MessageType_value SUBMITTED = 0x32"
| "MessageType_value KEY_PRESSED = 0x33"
| "MessageType_value SCROLL_CHANGED = 0x34"
| "MessageType_value RENDER_REQUEST = 0x40"
| "MessageType_value RENDER_RESULT = 0x41"
| "MessageType_value CONFIG_UPDATE = 0x50"
| "MessageType_value WIRING_UPDATE = 0x51"

type_synonym byte = "8 word"

record FrameHeader =
  length_of :: nat  \<comment> \<open>u32: payload length\<close>
  type_of :: nat    \<comment> \<open>u8: the numeric value read from the wire\<close>
  flags_of :: nat   \<comment> \<open>u8\<close>
  seq_of :: nat     \<comment> \<open>u16\<close>

definition FRAME_HEADER_SIZE :: nat where
  "FRAME_HEADER_SIZE = 8"

subsection \<open>DataView accessors\<close>

text \<open>
  \<^verbatim>\<open>setUint8\<close>, \<open>setUint16\<close> and \<open>setUint32\<close> store their argument modulo the
  width; \<open>of_nat\<close> into an 8-bit word is the reduction modulo 256.  The multi-byte
  accessors are used with \<open>littleEndian = true\<close> throughout.
\<close>

definition setUint8 :: "nat \<Rightarrow> byte list" where
  "setUint8 v = [of_nat v]"

definition setUint16 :: "nat \<Rightarrow> byte list" where
  "setUint16 v = [of_nat v, of_nat (v div 256)]"

definition setUint32 :: "nat \<Rightarrow> byte list" where
  "setUint32 v = [of_nat v, of_nat (v div 256), of_nat (v div 65536), of_nat (v div 16777216)]"

definition getUint8 :: "byte list \<Rightarrow> nat \<Rightarrow> nat" where
  "getUint8 d off = unat (d ! off)"

definition getUint16 :: "byte list \<Rightarrow> nat \<Rightarrow> nat" where
  "getUint16 d off = unat (d ! off) + 256 * unat (d ! (off + 1))"

definition getUint32 :: "byte list \<Rightarrow> nat \<Rightarrow> nat" where
  "getUint32 d off =
     unat (d ! off) + 256 * unat (d ! (off + 1)) + 65536 * unat (d ! (off + 2))
       + 16777216 * unat (d ! (off + 3))"

subsection \<open>Frame codec (\<^verbatim>\<open>src/ipc/frame.ts\<close>)\<close>

record Frame =
  header :: FrameHeader
  payload :: "byte list"

definition encodeFrame :: "MessageType \<Rightarrow> byte list \<Rightarrow> nat \<Rightarrow> nat \<Rightarrow> byte list" where
  "encodeFrame ty pl flags seq =
     setUint32 (length pl) @ setUint8 (MessageType_value ty) @ setUint8 flags
       @ setUint16 seq @ pl"

text \<open>
  \<open>decodeHeader\<close> reads through a DataView only after the length check, so every read
  below is in range.
\<close>

definition decodeHeader :: "byte list \<Rightarrow> FrameHeader option" where
  "decodeHeader d =
     (if length d < FRAME_HEADER_SIZE then None
      else Some \<lparr> length_of = getUint32 d 0, type_of = getUint8 d 4,
                  flags_of = getUint8 d 5, seq_of = getUint16 d 6 \<rparr>)"

definition decodeFrame :: "byte list \<Rightarrow> Frame option" where
  "decodeFrame d =
     (case decodeHeader d of
        None \<Rightarrow> None
      | Some h \<Rightarrow>
          if length d < FRAME_HEADER_SIZE + length_of h then None
          else Some \<lparr> header = h,
                      payload = take (length_of h) (drop FRAME_HEADER_SIZE d) \<rparr>)"

subsection \<open>Streaming reader (\<^verbatim>\<open>FrameReader\<close>)\<close>

record FrameReader =
  buffer :: "byte list"

definition newFrameReader :: FrameReader where
  "newFrameReader = \<lparr> buffer = [] \<rparr>"

definition append :: "FrameReader \<Rightarrow> byte list \<Rightarrow> FrameReader" where
  "append r d = r\<lparr> buffer := buffer r @ d \<rparr>"

text \<open>
  \<open>read\<close> returns the frame (or \<open>None\<close> for the source's \<open>null\<close>) together with the
  reader after the call.  \<^verbatim>\<open>buffer.slice(8, frameSize)\<close> is \<open>take\<close> after \<open>drop\<close>, and
  \<^verbatim>\<open>buffer.slice(frameSize)\<close> is \<open>drop\<close>.
\<close>

definition read :: "FrameReader \<Rightarrow> Frame option \<times> FrameReader" where
  "read r =
     (if length (buffer r) < FRAME_HEADER_SIZE then (None, r)
      else case decodeHeader (buffer r) of
        None \<Rightarrow> (None, r)
      | Some h \<Rightarrow>
          let frameSize = FRAME_HEADER_SIZE + length_of h in
          if length (buffer r) < frameSize then (None, r)
          else (Some \<lparr> header = h,
                       payload = take (frameSize - FRAME_HEADER_SIZE)
                                   (drop FRAME_HEADER_SIZE (buffer r)) \<rparr>,
                r\<lparr> buffer := drop frameSize (buffer r) \<rparr>))"

text \<open>
  \<open>readAll\<close> is the loop \<^verbatim>\<open>while ((frame = this.read()) !== null) frames.push(frame)\<close>.
  Every successful \<open>read\<close> removes at least the eight header bytes, so the loop ends.
\<close>

function readAll :: "FrameReader \<Rightarrow> Frame list \<times> FrameReader" where
  "readAll r =
     (case read r of
        (None, r') \<Rightarrow> ([], r')
      | (Some f, r') \<Rightarrow> (case readAll r' of (fs, r'') \<Rightarrow> (f # fs, r'')))"
  by pat_completeness auto
termination
  by (relation "measure (\<lambda>r. length (buffer r))") (auto simp: read_def FRAME_HEADER_SIZE_def Let_def split: if_splits option.splits)

declare readAll.simps [simp del]

text \<open>
  The supervisor's reader loop (\<open>readFromColumn\<close>): every chunk taken from the pipe is
  appended and all complete frames are drained and handled, in order; the model collects
  the frames handled over the whole run.
\<close>

fun readFromColumn :: "FrameReader \<Rightarrow> byte list list \<Rightarrow> Frame list \<times> FrameReader" where
  "readFromColumn r [] = ([], r)"
| "readFromColumn r (c # cs) =
     (case readAll (append r c) of
        (fs, r') \<Rightarrow> (case readFromColumn r' cs of (gs, r'') \<Rightarrow> (fs @ gs, r'')))"


subsection \<open>Expected results of decoding\<close>

text \<open>
  The frame a receiver should see for \<open>encodeFrame ty pl fl sq\<close>, and the byte stream of
  a sequence of frames sent back to back; both are used to state the codec properties.
\<close>

definition frameOf :: "MessageType \<Rightarrow> byte list \<Rightarrow> nat \<Rightarrow> nat \<Rightarrow> Frame" where
  "frameOf ty pl fl sq =
     \<lparr> header = \<lparr> length_of = length pl, type_of = MessageType_value ty,
                   flags_of = fl, seq_of = sq \<rparr>, payload = pl \<rparr>"

fun encodeAll :: "(MessageType \<times> byte list \<times> nat \<times> nat) list \<Rightarrow> byte list" where
  "encodeAll [] = []"
| "encodeAll ((ty, pl, fl, sq) # fs) = encodeFrame ty pl fl sq @ encodeAll fs"


section \<open>Projection (\<^verbatim>\<open>src/render/project.ts\<close>)\<close>

text \<open>
  JavaScript numbers are modelled as real numbers: the model covers the arithmetic of
  the code, not IEEE-754 rounding, infinities or NaN.
\<close>

definition DEG2RAD :: real where
  "DEG2RAD = pi / 180"

record Projection =
  azimuth :: real
  elevation :: real
  zoom :: real
  centerX :: real
  centerY :: real
  aspectRatio :: real

record Point3D =
  p3_x :: real
  p3_y :: real
  p3_z :: real

record Point2D =
  p2_x :: real
  p2_y :: real
  depth :: real

definition project3D :: "Point3D \<Rightarrow> Projection \<Rightarrow> Point2D" where
  "project3D p proj =
     (let azRad = azimuth proj * DEG2RAD;
          elRad = elevation proj * DEG2RAD;
          cosA = cos azRad; sinA = sin azRad;
          cosE = cos elRad; sinE = sin elRad;
          x1 = p3_x p * cosA - p3_y p * sinA;
          y1 = p3_x p * sinA + p3_y p * cosA;
          z1 = p3_z p;
          x2 = x1;
          y2 = y1 * cosE - z1 * sinE;
          z2 = y1 * sinE + z1 * cosE
      in \<lparr> p2_x = centerX proj + x2 * zoom proj,
           p2_y = centerY proj - z2 * zoom proj * aspectRatio proj,
           depth = y2 \<rparr>)"

text \<open>
  The remainder operator \<^verbatim>\<open>%\<close> of JavaScript truncates the quotient towards zero, so
  the result has the sign of the dividend.  (For a zero divisor JavaScript gives NaN;
  the code below only divides by the literal 360.)
\<close>

definition js_rem :: "real \<Rightarrow> real \<Rightarrow> real" where
  "js_rem a b = a - b * of_int (if 0 \<le> a / b then \<lfloor>a / b\<rfloor> else \<lceil>a / b\<rceil>)"

definition rotateProjection :: "Projection \<Rightarrow> real \<Rightarrow> real \<Rightarrow> Projection" where
  "rotateProjection proj deltaAzimuth deltaElevation =
     proj\<lparr> azimuth := js_rem (azimuth proj + deltaAzimuth + 360) 360,
           elevation := max (-89) (min 89 (elevation proj + deltaElevation)) \<rparr>"

definition zoomProjection :: "Projection \<Rightarrow> real \<Rightarrow> Projection" where
  "zoomProjection proj factor = proj\<lparr> zoom := max 1 (zoom proj * factor) \<rparr>"

text \<open>The mathematical remainder into \<open>[0, m)\<close>, used to state the wrap-around.\<close>

definition real_mod :: "real \<Rightarrow> real \<Rightarrow> real" where
  "real_mod a m = a - m * of_int \<lfloor>a / m\<rfloor>"


section \<open>Vectors and surfaces (\<^verbatim>\<open>src/data/vec.ts\<close>, \<^verbatim>\<open>src/data/surface.ts\<close>)\<close>

text \<open>
  A \<open>Vec64\<close> is a list of reals.  Reading a typed array outside its bounds yields
  \<^verbatim>\<open>undefined\<close> and never throws; \<open>vget\<close> makes that case explicit.
\<close>

type_synonym Vec64 = "real list"

definition vget :: "'a list \<Rightarrow> nat \<Rightarrow> 'a option" where
  "vget v i = (if i < length v then Some (v ! i) else None)"

text \<open>
  \<open>minmax\<close> starts from \<open>(Infinity, -Infinity)\<close>, which is also what it returns for an
  empty vector; the bounds therefore live in the reals extended by the two infinities.
\<close>

datatype bound = MinusInfinity | Finite real | Infinity

fun bound_less :: "bound \<Rightarrow> bound \<Rightarrow> bool" where
  "bound_less MinusInfinity MinusInfinity = False"
| "bound_less MinusInfinity _ = True"
| "bound_less (Finite a) (Finite b) = (a < b)"
| "bound_less (Finite a) Infinity = True"
| "bound_less (Finite a) MinusInfinity = False"
| "bound_less Infinity _ = False"

fun minmax_loop :: "Vec64 \<Rightarrow> bound \<times> bound \<Rightarrow> bound \<times> bound" where
  "minmax_loop [] (lo, hi) = (lo, hi)"
| "minmax_loop (val # v) (lo, hi) =
     minmax_loop v (if bound_less (Finite val) lo then Finite val else lo,
                    if bound_less hi (Finite val) then Finite val else hi)"

definition minmax :: "Vec64 \<Rightarrow> bound \<times> bound" where
  "minmax v = minmax_loop v (Infinity, MinusInfinity)"

record SurfaceMeta =
  xLabel :: string
  yLabel :: string
  zLabel :: string
  xDomain :: "bound \<times> bound"
  yDomain :: "bound \<times> bound"
  zDomain :: "bound \<times> bound"
  timestamp :: nat

record Surface =
  s_x :: Vec64   \<comment> \<open>x-axis values (length \<open>nx\<close>)\<close>
  s_y :: Vec64   \<comment> \<open>y-axis values (length \<open>ny\<close>)\<close>
  s_z :: Vec64   \<comment> \<open>row-major: \<open>z[xi][yi] = z[xi * ny + yi]\<close>\<close>
  nx :: nat
  ny :: nat
  meta :: SurfaceMeta

record Labels =
  label_x :: "string option"
  label_y :: "string option"
  label_z :: "string option"

text \<open>
  Failures: \<open>Error\<close> is the exception thrown by \<open>createSurface\<close>, \<open>TypeError\<close> the one
  raised by calling a method on \<^verbatim>\<open>undefined\<close>, \<open>RangeError\<close> the one raised by a DataView
  or typed-array view that does not fit its buffer, \<open>SyntaxError\<close> the one of \<^verbatim>\<open>JSON.parse\<close>.  \<open>OutsideReals\<close> is not an exception:
  it marks the places where the source would go on computing with NaN or an infinity,
  which the real-number model does not follow.
\<close>

datatype error = Error string | TypeError | RangeError | SyntaxError | OutsideReals

text \<open>
  \<open>createSurface\<close>; the clock reading \<^verbatim>\<open>Date.now()\<close> is passed in as \<open>now\<close>.  The text of
  the error message (which prints the two lengths) is not modelled.
\<close>

definition createSurface :: "Vec64 \<Rightarrow> Vec64 \<Rightarrow> Vec64 \<Rightarrow> Labels \<Rightarrow> nat \<Rightarrow> error + Surface" where
  "createSurface x y z labels now =
     (let nx = length x; ny = length y in
      if length z \<noteq> nx * ny then Inl (Error ''z length does not match nx*ny'')
      else Inr \<lparr> s_x = x, s_y = y, s_z = z, nx = nx, ny = ny,
                 meta = \<lparr> xLabel = (case label_x labels of Some l \<Rightarrow> l | None \<Rightarrow> ''X''),
                          yLabel = (case label_y labels of Some l \<Rightarrow> l | None \<Rightarrow> ''Y''),
                          zLabel = (case label_z labels of Some l \<Rightarrow> l | None \<Rightarrow> ''Z''),
                          xDomain = minmax x, yDomain = minmax y, zDomain = minmax z,
                          timestamp = now \<rparr> \<rparr>)"

text \<open>
  The shape a \<open>Surface\<close> is documented to have (the comments on its fields, and what
  \<open>createSurface\<close> builds).
\<close>

definition surface_shape :: "Surface \<Rightarrow> bool" where
  "surface_shape s \<longleftrightarrow>
     length (s_x s) = nx s \<and> length (s_y s) = ny s \<and> length (s_z s) = nx s * ny s"

definition strictly_increasing :: "Vec64 \<Rightarrow> bool" where
  "strictly_increasing v \<longleftrightarrow> sorted_wrt (<) v"

section \<open>Interpolation (\<^verbatim>\<open>src/surface/interpolate.ts\<close>)\<close>

text \<open>
  The binary search of \<open>findIndex\<close>.  \<open>lo\<close> and \<open>hi\<close> are array indices, so
  \<^verbatim>\<open>(lo + hi) >>> 1\<close> is the halving of a non-negative integer.  A read outside the array
  would compare \<^verbatim>\<open>undefined <= target\<close>, which is false.
\<close>

function findIndex_loop :: "Vec64 \<Rightarrow> real \<Rightarrow> nat \<Rightarrow> nat \<Rightarrow> nat" where
  "findIndex_loop values target lo hi =
     (if int lo < int hi - 1 then
        let mid = (lo + hi) div 2 in
        if (case vget values mid of Some v \<Rightarrow> v \<le> target | None \<Rightarrow> False)
        then findIndex_loop values target mid hi
        else findIndex_loop values target lo mid
      else lo)"
  by pat_completeness auto
termination
  by (relation "measure (\<lambda>(values, target, lo, hi). hi - lo)") auto

declare findIndex_loop.simps [simp del]

definition findIndex :: "Vec64 \<Rightarrow> real \<Rightarrow> int" where
  "findIndex values target =
     (let n = length values in
      if n = 0 then - 1
      else if target \<le> values ! 0 then 0
      else if target \<ge> values ! (n - 1) then int n - 2
      else int (findIndex_loop values target 0 (n - 1)))"

definition lerp :: "real \<Rightarrow> real \<Rightarrow> real \<Rightarrow> real" where
  "lerp a b t = a + (b - a) * t"

text \<open>
  The clamped lower corner \<^verbatim>\<open>Math.max(0, Math.min(xi, nx - 2))\<close> of the cell used by
  \<open>bilinearInterpolate\<close>, for both axes.
\<close>

definition clampIndex :: "int \<Rightarrow> nat \<Rightarrow> nat" where
  "clampIndex xi n = nat (max 0 (min xi (int n - 2)))"

definition bilinearCell :: "Surface \<Rightarrow> real \<Rightarrow> real \<Rightarrow> nat \<times> nat" where
  "bilinearCell surface x y =
     (clampIndex (findIndex (s_x surface) x) (nx surface),
      clampIndex (findIndex (s_y surface) y) (ny surface))"

text \<open>
  \<open>bilinearInterpolate\<close> cannot throw: it only reads typed arrays and does arithmetic.
  The result \<open>None\<close> stands for the NaN that the arithmetic produces when one of the
  reads is outside its array.
\<close>

definition bilinearInterpolate :: "Surface \<Rightarrow> real \<Rightarrow> real \<Rightarrow> real option" where
  "bilinearInterpolate surface x y =
     (let (x0, y0) = bilinearCell surface x y;
          x1 = x0 + 1;
          y1 = y0 + 1
      in Option.bind (vget (s_z surface) (x0 * ny surface + y0)) (\<lambda>z00.
         Option.bind (vget (s_z surface) (x0 * ny surface + y1)) (\<lambda>z01.
         Option.bind (vget (s_z surface) (x1 * ny surface + y0)) (\<lambda>z10.
         Option.bind (vget (s_z surface) (x1 * ny surface + y1)) (\<lambda>z11.
         Option.bind (vget (s_x surface) x0) (\<lambda>vx0.
         Option.bind (vget (s_x surface) x1) (\<lambda>vx1.
         Option.bind (vget (s_y surface) y0) (\<lambda>vy0.
         Option.bind (vget (s_y surface) y1) (\<lambda>vy1.
           let xRange = vx1 - vx0;
               yRange = vy1 - vy0;
               tx = (if xRange \<noteq> 0 then (x - vx0) / xRange else 0);
               ty = (if yRange \<noteq> 0 then (y - vy0) / yRange else 0);
               z0 = lerp z00 z01 ty;
               z1 = lerp z10 z11 ty
           in Some (lerp z0 z1 tx))))))))))"


section \<open>Surface serialization (\<^verbatim>\<open>src/ipc/serialize.ts\<close>)\<close>

text \<open>
  The serializer relies on three services of the host that are not part of the
  repository: the storage format of \<open>Float32Array\<close> elements, \<^verbatim>\<open>JSON.stringify\<close> followed by
  \<^verbatim>\<open>TextEncoder.encode\<close>, and \<^verbatim>\<open>TextDecoder.decode\<close> followed by \<^verbatim>\<open>JSON.parse\<close>.  They are
  parameters of the model:
  \<^item> \<open>f32_bytes v\<close> are the bytes a \<open>Float32Array\<close> element holds after \<open>v\<close> is stored in it,
    and \<open>f32_value\<close> reads an element back;
  \<^item> \<open>json_bytes\<close> is the encoded JSON text of the metadata object, and \<open>json_parse\<close> the
    value parsed from such bytes: \<open>None\<close> when \<^verbatim>\<open>JSON.parse\<close> throws, \<open>JsonNull\<close> for the
    value \<^verbatim>\<open>null\<close>, whose fields cannot be read, and otherwise the seven metadata fields
    as they read from the parsed value.
\<close>

datatype JsonValue = JsonNull | JsonObject SurfaceMeta

record Platform =
  f32_bytes :: "real \<Rightarrow> byte list"
  f32_value :: "byte list \<Rightarrow> real"
  json_bytes :: "SurfaceMeta \<Rightarrow> byte list"
  json_parse :: "byte list \<Rightarrow> JsonValue option"

text \<open>\<^verbatim>\<open>Math.fround\<close>: the number a \<open>Float32Array\<close> element holds after a store.\<close>

definition fround :: "Platform \<Rightarrow> real \<Rightarrow> real" where
  "fround P v = f32_value P (f32_bytes P v)"

text \<open>
  The loop \<^verbatim>\<open>for (i < n) f32View[f32Offset++] = v[i]\<close>.  An element read outside \<open>v\<close> would
  be stored as NaN.
\<close>

definition storeFloats :: "Platform \<Rightarrow> Vec64 \<Rightarrow> nat \<Rightarrow> error + byte list" where
  "storeFloats P v n =
     (if n \<le> length v then Inr (concat (map (f32_bytes P) (take n v)))
      else Inl OutsideReals)"

text \<open>The size of the block before the floats, and the padding that aligns them.\<close>

definition headerSize :: "nat \<Rightarrow> nat" where
  "headerSize metaLen = 4 + 4 + 4 + metaLen"

definition padding :: "nat \<Rightarrow> nat" where
  "padding metaLen = (4 - headerSize metaLen mod 4) mod 4"

text \<open>
  \<open>serializeSurfacePayload\<close> is the buffer built by \<open>serializeSurface\<close>, which is zero-filled
  when allocated, so the padding bytes are zero; \<open>serializeSurface\<close> frames it.
\<close>

definition serializeSurfacePayload :: "Platform \<Rightarrow> Surface \<Rightarrow> error + byte list" where
  "serializeSurfacePayload P s =
     (let metaBytes = json_bytes P (meta s) in
      case storeFloats P (s_x s) (nx s) of Inl e \<Rightarrow> Inl e | Inr xb \<Rightarrow>
     (case storeFloats P (s_y s) (ny s) of Inl e \<Rightarrow> Inl e | Inr yb \<Rightarrow>
     (case storeFloats P (s_z s) (nx s * ny s) of Inl e \<Rightarrow> Inl e | Inr zb \<Rightarrow>
        Inr (setUint32 (nx s) @ setUint32 (ny s) @ setUint32 (length metaBytes) @ metaBytes
               @ replicate (padding (length metaBytes)) 0 @ xb @ yb @ zb))))"

definition serializeSurface :: "Platform \<Rightarrow> Surface \<Rightarrow> error + byte list" where
  "serializeSurface P s =
     (case serializeSurfacePayload P s of
        Inl e \<Rightarrow> Inl e
      | Inr bytes \<Rightarrow> Inr (encodeFrame SURFACE_FULL bytes 0 0))"

text \<open>Reading \<open>count\<close> consecutive \<open>Float32Array\<close> elements.\<close>

fun loadFloats :: "Platform \<Rightarrow> byte list \<Rightarrow> nat \<Rightarrow> real list" where
  "loadFloats P bs 0 = []"
| "loadFloats P bs (Suc k) = f32_value P (take 4 bs) # loadFloats P (drop 4 bs) k"

text \<open>
  \<open>deserializeSurface\<close> on a payload that is an array of its own (byte offset 0 in its
  buffer), as returned by \<open>decodeFrame\<close>.  The three \<open>getUint32\<close> reads throw unless the
  payload has twelve bytes; the \<open>Float32Array\<close> view throws unless it starts at a multiple
  of four and fits the buffer; reading the fields of the metadata throws when it parsed
  to \<^verbatim>\<open>null\<close>.
\<close>

definition deserializeSurface :: "Platform \<Rightarrow> byte list \<Rightarrow> error + Surface" where
  "deserializeSurface P pl =
     (if length pl < 12 then Inl RangeError
      else
        let nx0 = getUint32 pl 0;
            ny0 = getUint32 pl 4;
            metaLen = getUint32 pl 8;
            metaBytes = take metaLen (drop 12 pl)
        in case json_parse P metaBytes of
             None \<Rightarrow> Inl SyntaxError
           | Some parsed \<Rightarrow>
               let offset = 12 + metaLen + padding metaLen;
                   count = nx0 + ny0 + nx0 * ny0
               in if offset mod 4 \<noteq> 0 \<or> length pl < offset + 4 * count then Inl RangeError
                  else
                    let f32Data = loadFloats P (drop offset pl) count
                    in (case parsed of
                          JsonNull \<Rightarrow> Inl TypeError
                        | JsonObject m \<Rightarrow>
                            Inr \<lparr> s_x = take nx0 f32Data,
                                  s_y = take ny0 (drop nx0 f32Data),
                                  s_z = drop (nx0 + ny0) f32Data,
                                  nx = nx0, ny = ny0, meta = m \<rparr>))"

text \<open>
  What the round-trip property assumes of the host: elements are four bytes wide, and the
  labels of the metadata survive the JSON round trip.  A value is exactly representable
  when a store followed by a load returns it.
\<close>

definition f32_width :: "Platform \<Rightarrow> bool" where
  "f32_width P \<longleftrightarrow> (\<forall>v. length (f32_bytes P v) = 4)"

definition json_keeps_labels :: "Platform \<Rightarrow> SurfaceMeta \<Rightarrow> bool" where
  "json_keeps_labels P m \<longleftrightarrow>
     (case json_parse P (json_bytes P m) of
        Some (JsonObject m') \<Rightarrow>
          xLabel m' = xLabel m \<and> yLabel m' = yLabel m \<and> zLabel m' = zLabel m
      | _ \<Rightarrow> False)"

definition f32_representable :: "Platform \<Rightarrow> real \<Rightarrow> bool" where
  "f32_representable P v \<longleftrightarrow> fround P v = v"

text \<open>The summed absolute deviation of two vectors.\<close>

definition deviation :: "real list \<Rightarrow> real list \<Rightarrow> real" where
  "deviation v w = (\<Sum>(a, b)\<leftarrow>zip v w. \<bar>a - b\<bar>)"

text \<open>
  A host used to exercise the round trip on concrete data: its four-byte numbers are
  unsigned integers, and its metadata text holds the three labels, each preceded by its
  length.
\<close>

definition label_bytes :: "string \<Rightarrow> byte list" where
  "label_bytes l = of_nat (length l) # map (\<lambda>c. of_nat (of_char c)) l"

definition example_platform :: Platform where
  "example_platform =
     \<lparr> f32_bytes = (\<lambda>v. setUint32 (nat \<lfloor>v\<rfloor>)),
       f32_value = (\<lambda>bs. real (getUint32 bs 0)),
       json_bytes = (\<lambda>m. label_bytes (xLabel m) @ label_bytes (yLabel m) @ label_bytes (zLabel m)),
       json_parse = (\<lambda>bs.
          let lx = unat (bs ! 0);
              x = take lx (drop 1 bs);
              ly = unat (bs ! (1 + lx));
              y = take ly (drop (2 + lx) bs);
              lz = unat (bs ! (2 + lx + ly));
              z = take lz (drop (3 + lx + ly) bs);
              str = map (\<lambda>b. char_of (unat b))
          in Some (JsonObject
                \<lparr> xLabel = str x, yLabel = str y, zLabel = str z,
                  xDomain = (Infinity, MinusInfinity), yDomain = (Infinity, MinusInfinity),
                  zDomain = (Infinity, MinusInfinity), timestamp = 0 \<rparr>)) \<rparr>"


section \<open>Arbitrage detection (\<^verbatim>\<open>src/surface/arbitrage.ts\<close>)\<close>

datatype ViolationType = calendar | butterfly | vertical

datatype Severity = minor | moderate | severe

record Location =
  loc_x1 :: real             \<comment> \<open>expiry\<close>
  loc_x2 :: "real option"    \<comment> \<open>second expiry, for calendar violations\<close>
  loc_y :: real              \<comment> \<open>strike\<close>

text \<open>The \<open>description\<close> string of a violation is display text and is not modelled.\<close>

record ArbitrageViolation =
  vtype :: ViolationType
  severity :: Severity
  location :: Location
  violation :: real

record Summary =
  n_calendar :: nat
  n_butterfly :: nat
  n_vertical :: nat
  total :: nat

record ArbitrageCheckResult =
  arbitrageFree :: bool
  violations :: "ArbitrageViolation list"
  summary :: Summary

text \<open>
  Running a loop body over a range of indices and appending what each iteration pushes;
  an exception in one iteration ends the loop.
\<close>

fun collect :: "(nat \<Rightarrow> error + 'a list) \<Rightarrow> nat list \<Rightarrow> error + 'a list" where
  "collect body [] = Inr []"
| "collect body (i # rest) =
     (case body i of
        Inl e \<Rightarrow> Inl e
      | Inr vs \<Rightarrow> (case collect body rest of Inl e \<Rightarrow> Inl e | Inr ws \<Rightarrow> Inr (vs @ ws)))"

text \<open>
  One iteration of the inner loop of \<open>checkCalendarArbitrage\<close>, for strike column \<open>j\<close> and
  expiries \<open>i\<close>, \<open>i + 1\<close>.  If one of the reads of \<open>x\<close> or \<open>z\<close> is undefined the variances
  are NaN and the comparison is false.  When a violation is found the description calls
  \<^verbatim>\<open>strike.toFixed\<close>, which throws for an undefined strike.  The arithmetic of this
  section is over the reals; it carries the control flow of the checks and of the repair
  loop.  Which pairs the calendar check reports under binary64 rounding is the subject of
  \<open>checkCalendarArbitrage64\<close> further down.
\<close>

definition calendarSeverity :: "real \<Rightarrow> Severity" where
  "calendarSeverity v = (if v > 0.01 then severe else if v > 0.005 then moderate else minor)"

definition calendarCell :: "Surface \<Rightarrow> real \<Rightarrow> nat \<Rightarrow> nat \<Rightarrow> error + ArbitrageViolation list" where
  "calendarCell surface tolerance j i =
     (case vget (s_x surface) i of None \<Rightarrow> Inr [] | Some T1 \<Rightarrow>
     (case vget (s_x surface) (i + 1) of None \<Rightarrow> Inr [] | Some T2 \<Rightarrow>
     (case vget (s_z surface) (i * ny surface + j) of None \<Rightarrow> Inr [] | Some iv1 \<Rightarrow>
     (case vget (s_z surface) ((i + 1) * ny surface + j) of None \<Rightarrow> Inr [] | Some iv2 \<Rightarrow>
        let w1 = iv1 * iv1 * T1;
            w2 = iv2 * iv2 * T2
        in if w2 < w1 - tolerance then
             (case vget (s_y surface) j of
                None \<Rightarrow> Inl TypeError
              | Some strike \<Rightarrow>
                  Inr [\<lparr> vtype = calendar, severity = calendarSeverity (w1 - w2),
                         location = \<lparr> loc_x1 = T1, loc_x2 = Some T2, loc_y = strike \<rparr>,
                         violation = w1 - w2 \<rparr>])
           else Inr []))))"

definition checkCalendarArbitrage :: "Surface \<Rightarrow> real \<Rightarrow> error + ArbitrageViolation list" where
  "checkCalendarArbitrage surface tolerance =
     collect (\<lambda>j. collect (\<lambda>i. calendarCell surface tolerance j i) [0 ..< nx surface - 1])
       [0 ..< ny surface]"

text \<open>
  \<open>checkButterflyArbitrage\<close>: the description formats both \<open>T\<close> and \<open>strike\<close>, so either
  being undefined throws once a violation is found.
\<close>

definition butterflySeverity :: "real \<Rightarrow> Severity" where
  "butterflySeverity v = (if v > 0.02 then severe else if v > 0.01 then moderate else minor)"

definition butterflyCell :: "Surface \<Rightarrow> real \<Rightarrow> nat \<Rightarrow> nat \<Rightarrow> error + ArbitrageViolation list" where
  "butterflyCell surface tolerance i j =
     (case vget (s_z surface) (i * ny surface + (j - 1)) of None \<Rightarrow> Inr [] | Some ivLeft \<Rightarrow>
     (case vget (s_z surface) (i * ny surface + j) of None \<Rightarrow> Inr [] | Some ivMid \<Rightarrow>
     (case vget (s_z surface) (i * ny surface + (j + 1)) of None \<Rightarrow> Inr [] | Some ivRight \<Rightarrow>
        let bfly = (ivLeft + ivRight) / 2 - ivMid
        in if bfly < - tolerance then
             (case (vget (s_x surface) i, vget (s_y surface) j) of
                (Some T, Some strike) \<Rightarrow>
                  Inr [\<lparr> vtype = butterfly, severity = butterflySeverity \<bar>bfly\<bar>,
                         location = \<lparr> loc_x1 = T, loc_x2 = None, loc_y = strike \<rparr>,
                         violation = \<bar>bfly\<bar> \<rparr>]
              | _ \<Rightarrow> Inl TypeError)
           else Inr [])))"

definition checkButterflyArbitrage :: "Surface \<Rightarrow> real \<Rightarrow> error + ArbitrageViolation list" where
  "checkButterflyArbitrage surface tolerance =
     collect (\<lambda>i. collect (\<lambda>j. butterflyCell surface tolerance i j) [1 ..< ny surface - 1])
       [0 ..< nx surface]"

text \<open>
  \<open>checkAllArbitrage\<close> as called without a forward price (\<^verbatim>\<open>forward\<close> undefined, which is
  how \<open>enforceArbitrageFree\<close> calls it): the vertical check is skipped and its list of
  violations is empty.
\<close>

definition checkAllArbitrage :: "Surface \<Rightarrow> real \<Rightarrow> error + ArbitrageCheckResult" where
  "checkAllArbitrage surface tolerance =
     (case checkCalendarArbitrage surface tolerance of Inl e \<Rightarrow> Inl e | Inr calendarViolations \<Rightarrow>
     (case checkButterflyArbitrage surface tolerance of Inl e \<Rightarrow> Inl e | Inr butterflyViolations \<Rightarrow>
        let verticalViolations = [];
            allViolations = calendarViolations @ butterflyViolations @ verticalViolations
        in Inr \<lparr> arbitrageFree = (length allViolations = 0),
                 violations = allViolations,
                 summary = \<lparr> n_calendar = length calendarViolations,
                             n_butterfly = length butterflyViolations,
                             n_vertical = length verticalViolations,
                             total = length allViolations \<rparr> \<rparr>))"

subsection \<open>Enforcing an arbitrage-free surface\<close>

text \<open>\<^verbatim>\<open>Array.prototype.findIndex\<close>: the first index whose element satisfies the test.\<close>

fun array_findIndex :: "('a \<Rightarrow> bool) \<Rightarrow> 'a list \<Rightarrow> nat option" where
  "array_findIndex P [] = None"
| "array_findIndex P (a # as) =
     (if P a then Some 0 else map_option Suc (array_findIndex P as))"

text \<open>
  The correction for one calendar violation, on the current \<open>z\<close> array (the array is
  updated in place in the source; the model passes it along).  The inner loop stops at
  the first pair of expiries that matches the violation.  The adjustment
  \<^verbatim>\<open>Math.sqrt(v.violation / x[i + 1]) * 0.5\<close> is a real number only if the far expiry is not
  zero and the quotient is not negative.  A write outside the array is ignored.
\<close>

definition fixCalendar :: "Surface \<Rightarrow> ArbitrageViolation \<Rightarrow> Vec64 \<Rightarrow> error + Vec64" where
  "fixCalendar current v z =
     (case array_findIndex (\<lambda>y. \<bar>y - loc_y (location v)\<bar> < 1 / 10 ^ 6) (s_y current) of
        None \<Rightarrow> Inr z
      | Some j \<Rightarrow>
          (case find (\<lambda>i.
                  (case (vget (s_x current) i, vget (s_x current) (i + 1), loc_x2 (location v)) of
                     (Some xi, Some xi1, Some x2) \<Rightarrow>
                       \<bar>xi - loc_x1 (location v)\<bar> < 1 / 10 ^ 6 \<and> \<bar>xi1 - x2\<bar> < 1 / 10 ^ 6
                   | _ \<Rightarrow> False))
                [0 ..< nx current - 1] of
             None \<Rightarrow> Inr z
           | Some i \<Rightarrow>
               let idx = (i + 1) * ny current + j;
                   far = s_x current ! (i + 1)
               in (case vget z idx of
                     None \<Rightarrow> Inr z
                   | Some zi \<Rightarrow>
                       if far = 0 \<or> violation v / far < 0 then Inl OutsideReals
                       else
                         let adjustment = sqrt (violation v / far) * 0.5
                         in Inr (z[idx := zi + adjustment]))))"

text \<open>
  The correction for one butterfly violation: the middle point becomes the average of
  its two neighbours in strike.  If a neighbour is read outside the array the source
  stores NaN.
\<close>

definition fixButterfly :: "Surface \<Rightarrow> ArbitrageViolation \<Rightarrow> Vec64 \<Rightarrow> error + Vec64" where
  "fixButterfly current v z =
     (case (array_findIndex (\<lambda>x. \<bar>x - loc_x1 (location v)\<bar> < 1 / 10 ^ 6) (s_x current),
            array_findIndex (\<lambda>y. \<bar>y - loc_y (location v)\<bar> < 1 / 10 ^ 6) (s_y current)) of
        (Some i, Some j) \<Rightarrow>
          if j = 0 \<or> int j = int (ny current) - 1 then Inr z
          else (case (vget z (i * ny current + (j - 1)), vget z (i * ny current + (j + 1))) of
                  (Some left, Some right) \<Rightarrow> Inr (z[i * ny current + j := (left + right) / 2])
                | _ \<Rightarrow> if i * ny current + j < length z then Inl OutsideReals else Inr z)
      | _ \<Rightarrow> Inr z)"

fun applyFixes :: "(ArbitrageViolation \<Rightarrow> Vec64 \<Rightarrow> error + Vec64) \<Rightarrow> ArbitrageViolation list
    \<Rightarrow> Vec64 \<Rightarrow> error + Vec64" where
  "applyFixes fix [] z = Inr z"
| "applyFixes fix (v # vs) z =
     (case fix v z of Inl e \<Rightarrow> Inl e | Inr z' \<Rightarrow> applyFixes fix vs z')"

definition applyCorrections :: "Surface \<Rightarrow> ArbitrageViolation list \<Rightarrow> error + Surface" where
  "applyCorrections current vs =
     (case applyFixes (fixCalendar current) (filter (\<lambda>v. vtype v = calendar) vs) (s_z current) of
        Inl e \<Rightarrow> Inl e
      | Inr z \<Rightarrow>
          (case applyFixes (fixButterfly current) (filter (\<lambda>v. vtype v = butterfly) vs) z of
             Inl e \<Rightarrow> Inl e
           | Inr z' \<Rightarrow> Inr (current\<lparr> s_z := z' \<rparr>)))"

text \<open>
  The loop of \<open>enforceArbitrageFree\<close>.  The first argument counts the iterations still
  allowed and \<open>iter\<close> is the loop counter.  Besides the surface, the loop reports the value
  of \<open>iter\<close> at the moment it returns: below \<open>maxIterations\<close> for the early
  \<^verbatim>\<open>return current\<close> inside the loop, equal to it when the loop runs out.
\<close>

fun enforce_loop :: "nat \<Rightarrow> nat \<Rightarrow> real \<Rightarrow> Surface \<Rightarrow> error + Surface \<times> nat" where
  "enforce_loop 0 iter tolerance current = Inr (current, iter)"
| "enforce_loop (Suc remaining) iter tolerance current =
     (case checkAllArbitrage current tolerance of
        Inl e \<Rightarrow> Inl e
      | Inr result \<Rightarrow>
          if arbitrageFree result then Inr (current, iter)
          else (case applyCorrections current (violations result) of
                  Inl e \<Rightarrow> Inl e
                | Inr current' \<Rightarrow> enforce_loop remaining (iter + 1) tolerance current'))"

definition enforce_rounds :: "Surface \<Rightarrow> nat \<Rightarrow> real \<Rightarrow> error + Surface \<times> nat" where
  "enforce_rounds surface maxIterations tolerance =
     enforce_loop maxIterations 0 tolerance (surface\<lparr> s_z := s_z surface \<rparr>)"

definition enforceArbitrageFree :: "Surface \<Rightarrow> nat \<Rightarrow> real \<Rightarrow> error + Surface" where
  "enforceArbitrageFree surface maxIterations tolerance =
     map_sum id fst (enforce_rounds surface maxIterations tolerance)"


section \<open>Risk metrics (\<^verbatim>\<open>src/render/gradient.ts\<close>)\<close>

record SlopeData =
  dz_dx :: Vec64
  dz_dy :: Vec64
  magnitude :: Vec64
  angle :: Vec64

record HighRiskZone =
  zone_xi :: nat
  zone_yi :: nat
  zone_magnitude :: real

record RiskMetrics =
  maxSlope :: real
  avgSlope :: real
  slopeVariance :: real
  upwardBias :: real
  termStructureSteepness :: real
  smileSteepness :: real
  highRiskZones :: "HighRiskZone list"
  flatZones :: "(nat \<times> nat) list"
  riskScore :: real

text \<open>The six accumulators of the first loop of \<open>computeRiskMetrics\<close>.\<close>

record RiskSums =
  acc_maxSlope :: real
  acc_sumSlope :: real
  acc_sumSlopeSq :: real
  acc_upwardCount :: nat
  acc_sumTermSlope :: real
  acc_sumSmile :: real

text \<open>
  The first loop, over the indices \<open>0 \<le> i < n\<close> with \<open>n\<close> the length of \<open>magnitude\<close>.  A
  read of \<open>dz_dx\<close> or \<open>dz_dy\<close> outside the array would put NaN into the sums.
\<close>

fun risk_loop :: "SlopeData \<Rightarrow> nat list \<Rightarrow> RiskSums \<Rightarrow> error + RiskSums" where
  "risk_loop slope [] a = Inr a"
| "risk_loop slope (i # rest) a =
     (case (vget (magnitude slope) i, vget (dz_dx slope) i, vget (dz_dy slope) i) of
        (Some mag, Some dzDx, Some dzDy) \<Rightarrow>
          risk_loop slope rest
            \<lparr> acc_maxSlope = max (acc_maxSlope a) mag,
              acc_sumSlope = acc_sumSlope a + mag,
              acc_sumSlopeSq = acc_sumSlopeSq a + mag * mag,
              acc_upwardCount = (if dzDy > 0 then acc_upwardCount a + 1 else acc_upwardCount a),
              acc_sumTermSlope = acc_sumTermSlope a + dzDx,
              acc_sumSmile = acc_sumSmile a + \<bar>dzDy\<bar> \<rparr>
      | _ \<Rightarrow> Inl OutsideReals)"

text \<open>
  The second loop classifies the cells.  A cell whose index is outside \<open>magnitude\<close> reads
  \<^verbatim>\<open>undefined\<close>, for which both comparisons are false.
\<close>

definition zoneCell :: "SlopeData \<Rightarrow> real \<Rightarrow> real \<Rightarrow> nat \<Rightarrow> nat \<Rightarrow> nat
    \<Rightarrow> HighRiskZone list \<times> (nat \<times> nat) list" where
  "zoneCell slope threshold flatThreshold ny0 i j =
     (case vget (magnitude slope) (i * ny0 + j) of
        None \<Rightarrow> ([], [])
      | Some mag \<Rightarrow>
          if mag \<ge> threshold then ([\<lparr> zone_xi = i, zone_yi = j, zone_magnitude = mag \<rparr>], [])
          else if mag \<le> flatThreshold then ([], [(i, j)])
          else ([], []))"

definition zones :: "SlopeData \<Rightarrow> real \<Rightarrow> real \<Rightarrow> nat \<Rightarrow> nat
    \<Rightarrow> HighRiskZone list \<times> (nat \<times> nat) list" where
  "zones slope threshold flatThreshold nx0 ny0 =
     (let cells = concat (map (\<lambda>i. map (\<lambda>j. zoneCell slope threshold flatThreshold ny0 i j)
                                       [0 ..< ny0]) [0 ..< nx0])
      in (concat (map fst cells), concat (map snd cells)))"

text \<open>
  \<open>computeRiskMetrics\<close>.  The quotients by \<open>n\<close> are NaN for an empty field, and
  \<^verbatim>\<open>Math.sqrt\<close> of a negative variance is NaN; in both cases the model stops with
  \<open>OutsideReals\<close>.  \<^verbatim>\<open>Array.prototype.sort\<close> is stable, as is \<open>sort_key\<close>.
\<close>

definition computeRiskMetrics :: "SlopeData \<Rightarrow> nat \<Rightarrow> nat \<Rightarrow> error + RiskMetrics" where
  "computeRiskMetrics slope nx0 ny0 =
     (let n = length (magnitude slope) in
      case risk_loop slope [0 ..< n]
             \<lparr> acc_maxSlope = 0, acc_sumSlope = 0, acc_sumSlopeSq = 0, acc_upwardCount = 0,
               acc_sumTermSlope = 0, acc_sumSmile = 0 \<rparr> of
        Inl e \<Rightarrow> Inl e
      | Inr a \<Rightarrow>
          if n = 0 then Inl OutsideReals
          else
            let maxSlope = acc_maxSlope a;
                avgSlope = acc_sumSlope a / real n;
                slopeVariance = acc_sumSlopeSq a / real n - avgSlope * avgSlope;
                threshold = maxSlope * 0.7;
                flatThreshold = maxSlope * 0.1;
                (high, flat) = zones slope threshold flatThreshold nx0 ny0;
                sorted = sort_key (\<lambda>z. - zone_magnitude z) high
            in if slopeVariance < 0 then Inl OutsideReals
               else
                 let normalizedMax = min 1 (maxSlope / 2);
                     normalizedVar = min 1 (sqrt slopeVariance / 0.5);
                     normalizedTerm = min 1 (\<bar>acc_sumTermSlope a / real n\<bar> / 0.5);
                     riskScore = normalizedMax * 0.4 + normalizedVar * 0.3 + normalizedTerm * 0.3
                 in Inr \<lparr> maxSlope = maxSlope,
                          avgSlope = avgSlope,
                          slopeVariance = slopeVariance,
                          upwardBias = real (acc_upwardCount a) / real n,
                          termStructureSteepness = acc_sumTermSlope a / real n,
                          smileSteepness = acc_sumSmile a / real n,
                          highRiskZones = take 10 sorted,
                          flatZones = take 10 flat,
                          riskScore = riskScore \<rparr>)"


subsection \<open>The variance in binary64 arithmetic\<close>

text \<open>
  The real-number model above computes the sums exactly.  The program computes them in
  IEEE-754 binary64, where every operation returns the representable number nearest to
  the exact result, ties going to the even significand.  For results in the normal
  range (no overflow, no subnormals) that rounding is \<open>binary64\<close> below: a non-zero
  rational \<open>q\<close> with \<open>2^e \<le> |q| < 2^(e+1)\<close> is rounded to a multiple of \<open>2^(e-52)\<close>.
\<close>

definition pow2 :: "int \<Rightarrow> rat" where
  "pow2 e = (if 0 \<le> e then 2 ^ nat e else 1 / 2 ^ nat (- e))"

text \<open>
  The number of binary digits of a positive integer, and the exponent \<open>e\<close> of the
  binade \<open>2^e \<le> q < 2^(e+1)\<close> of a positive rational \<open>q = a / b\<close>: it is the difference
  of the digit counts of \<open>a\<close> and \<open>b\<close>, or one less.
\<close>

function bit_length :: "int \<Rightarrow> nat" where
  "bit_length a = (if a \<le> 0 then 0 else Suc (bit_length (a div 2)))"
  by pat_completeness auto
termination
  by (relation "measure nat") auto

declare bit_length.simps [simp del]

definition binade :: "rat \<Rightarrow> int" where
  "binade q =
     (let (a, b) = quotient_of q;
          e0 = int (bit_length a) - int (bit_length b)
      in if pow2 e0 \<le> q then e0 else e0 - 1)"

definition round_half_even :: "rat \<Rightarrow> int" where
  "round_half_even q =
     (let f = \<lfloor>q\<rfloor>; r = q - of_int f
      in if r < 1 / 2 then f else if 1 / 2 < r then f + 1 else if even f then f else f + 1)"

definition binary64 :: "rat \<Rightarrow> rat" where
  "binary64 q =
     (if q = 0 then 0
      else let u = pow2 (binade \<bar>q\<bar> - 52) in of_int (round_half_even (q / u)) * u)"

text \<open>
  The accumulation of \<open>sumSlope\<close> and \<open>sumSlopeSq\<close> in the first loop, and the variance
  computed from them, with every operation rounded.
\<close>

fun risk_sums_binary64 :: "rat list \<Rightarrow> rat \<times> rat \<Rightarrow> rat \<times> rat" where
  "risk_sums_binary64 [] (sumSlope, sumSlopeSq) = (sumSlope, sumSlopeSq)"
| "risk_sums_binary64 (mag # rest) (sumSlope, sumSlopeSq) =
     risk_sums_binary64 rest
       (binary64 (sumSlope + mag), binary64 (sumSlopeSq + binary64 (mag * mag)))"

definition slopeVariance_binary64 :: "rat list \<Rightarrow> rat" where
  "slopeVariance_binary64 mags =
     (let n = of_nat (length mags);
          (sumSlope, sumSlopeSq) = risk_sums_binary64 mags (0, 0);
          avgSlope = binary64 (sumSlope / n)
      in binary64 (binary64 (sumSlopeSq / n) - binary64 (avgSlope * avgSlope)))"


subsection \<open>The calendar check in binary64 arithmetic\<close>

text \<open>
  Which violations \<open>checkCalendarArbitrage\<close> reports, and with which magnitude and
  severity, depends on the rounding of every product and difference.  Here the check is
  modelled on binary64 numbers (rationals \<open>q\<close> with \<open>binary64 q = q\<close>), each operation
  rounded, for results in the normal range.  The literals \<^verbatim>\<open>0.01\<close> and \<^verbatim>\<open>0.005\<close> of the
  source are the binary64 numbers nearest to them.  The \<open>description\<close> string is not
  modelled.
\<close>

record Surface64 =
  x64 :: "rat list"   \<comment> \<open>expiries (length \<open>nx64\<close>)\<close>
  y64 :: "rat list"   \<comment> \<open>strikes (length \<open>ny64\<close>)\<close>
  z64 :: "rat list"   \<comment> \<open>row-major: \<open>z[xi][yi] = z[xi * ny + yi]\<close>\<close>
  nx64 :: nat
  ny64 :: nat

record Location64 =
  loc64_x1 :: rat
  loc64_x2 :: "rat option"
  loc64_y :: rat

record Violation64 =
  vtype64 :: ViolationType
  severity64 :: Severity
  location64 :: Location64
  violation64 :: rat


definition calendarSeverity64 :: "rat \<Rightarrow> Severity" where
  "calendarSeverity64 v =
     (if v > binary64 (1 / 100) then severe
      else if v > binary64 (5 / 1000) then moderate else minor)"

definition calendarCell64 :: "Surface64 \<Rightarrow> rat \<Rightarrow> nat \<Rightarrow> nat \<Rightarrow> error + Violation64 list" where
  "calendarCell64 surface tolerance j i =
     (case vget (x64 surface) i of None \<Rightarrow> Inr [] | Some T1 \<Rightarrow>
     (case vget (x64 surface) (i + 1) of None \<Rightarrow> Inr [] | Some T2 \<Rightarrow>
     (case vget (z64 surface) (i * ny64 surface + j) of None \<Rightarrow> Inr [] | Some iv1 \<Rightarrow>
     (case vget (z64 surface) ((i + 1) * ny64 surface + j) of None \<Rightarrow> Inr [] | Some iv2 \<Rightarrow>
        let w1 = binary64 (binary64 (iv1 * iv1) * T1);
            w2 = binary64 (binary64 (iv2 * iv2) * T2)
        in if w2 < binary64 (w1 - tolerance) then
             (case vget (y64 surface) j of
                None \<Rightarrow> Inl TypeError
              | Some strike \<Rightarrow>
                  Inr [\<lparr> vtype64 = calendar,
                         severity64 = calendarSeverity64 (binary64 (w1 - w2)),
                         location64 = \<lparr> loc64_x1 = T1, loc64_x2 = Some T2, loc64_y = strike \<rparr>,
                         violation64 = binary64 (w1 - w2) \<rparr>])
           else Inr []))))"

definition checkCalendarArbitrage64 :: "Surface64 \<Rightarrow> rat \<Rightarrow> error + Violation64 list" where
  "checkCalendarArbitrage64 surface tolerance =
     collect (\<lambda>j. collect (\<lambda>i. calendarCell64 surface tolerance j i) [0 ..< nx64 surface - 1])
       [0 ..< ny64 surface]"





section \<open>Properties of the frame codec\<close>

subsection \<open>Header fields survive the wire\<close>

lemma u32_arith:
  fixes n :: nat
  shows "n mod 256 + 256 * (n div 256 mod 256) + 65536 * (n div 65536 mod 256) +
     16777216 * (n div 16777216) = n"
proof -
  have a: "n div 65536 = n div 256 div 256" by (simp add: div_mult2_eq)
  have b: "n div 16777216 = n div 256 div 256 div 256" by (simp add: div_mult2_eq)
  have c: "\<And>m::nat. m mod 256 + 256 * (m div 256) = m" by simp
  have "n div 256 div 256 mod 256 + 256 * (n div 256 div 256 div 256) = n div 256 div 256"
    by (rule c)
  moreover have "n div 256 mod 256 + 256 * (n div 256 div 256) = n div 256" by (rule c)
  moreover have "n mod 256 + 256 * (n div 256) = n" by (rule c)
  ultimately show ?thesis unfolding a b by linarith
qed

lemma getUint32_setUint32: "n < 2 ^ 32 \<Longrightarrow> getUint32 (setUint32 n @ rest) 0 = n"
  unfolding getUint32_def setUint32_def
  using u32_arith [of n] by (simp add: unat_of_nat)

lemma MessageType_value_bound: "MessageType_value ty < 256"
  by (cases ty) simp_all

lemma length_encodeFrame: "length (encodeFrame ty pl fl sq) = 8 + length pl"
  by (simp add: encodeFrame_def setUint32_def setUint8_def setUint16_def)

lemma encodeFrame_bytes:
  "encodeFrame ty pl fl sq @ rest =
     setUint32 (length pl) @ (of_nat (MessageType_value ty) # of_nat fl # of_nat sq # of_nat (sq div 256) # pl @ rest)"
  by (simp add: encodeFrame_def setUint8_def setUint16_def)

lemma decodeHeader_prefix:
  assumes "fl < 256" "sq < 65536" "length pl < 2 ^ 32" "8 \<le> n"
  shows "decodeHeader (take n (encodeFrame ty pl fl sq @ rest)) = Some (header (frameOf ty pl fl sq))"
proof -
  define d where "d = take n (encodeFrame ty pl fl sq @ rest)"
  define tl where "tl = (of_nat (MessageType_value ty) :: byte) # of_nat fl # of_nat sq # of_nat (sq div 256) # pl"
  have e: "encodeFrame ty pl fl sq = setUint32 (length pl) @ tl"
    by (simp add: encodeFrame_def setUint8_def setUint16_def tl_def)
  have len: "8 \<le> length d"
    using assms(4) by (simp add: d_def length_encodeFrame)
  have nth: "i < 8 \<Longrightarrow> d ! i = (setUint32 (length pl) @ tl) ! i" for i
    using assms(4) unfolding d_def e [symmetric]
    by (simp add: nth_append length_encodeFrame)
  have l: "getUint32 d 0 = length pl"
    using getUint32_setUint32 [OF assms(3), of tl]
    by (simp add: getUint32_def nth)
  have t: "getUint8 d 4 = MessageType_value ty"
    using MessageType_value_bound [of ty]
    by (simp add: getUint8_def nth tl_def setUint32_def unat_of_nat)
  have f: "getUint8 d 5 = fl"
    using assms(1) by (simp add: getUint8_def nth tl_def setUint32_def unat_of_nat)
  have s: "getUint16 d 6 = sq"
    using assms(2) by (simp add: getUint16_def nth tl_def setUint32_def unat_of_nat)
  have "\<not> length d < FRAME_HEADER_SIZE"
    using len by (simp add: FRAME_HEADER_SIZE_def)
  then show ?thesis
    unfolding d_def [symmetric] by (simp add: decodeHeader_def l t f s frameOf_def)
qed

lemma decodeHeader_encodeFrame:
  assumes "fl < 256" "sq < 65536" "length pl < 2 ^ 32"
  shows "decodeHeader (encodeFrame ty pl fl sq @ rest) = Some (header (frameOf ty pl fl sq))"
  using decodeHeader_prefix [OF assms, of "length (encodeFrame ty pl fl sq @ rest)" ty rest]
  by (simp add: length_encodeFrame)

lemma decodeFrame_encodeFrame:
  assumes "fl < 256" "sq < 65536" "length pl < 2 ^ 32"
  shows "decodeFrame (encodeFrame ty pl fl sq) = Some (frameOf ty pl fl sq)"
proof -
  have d: "drop 8 (encodeFrame ty pl fl sq) = pl"
    by (simp add: encodeFrame_def setUint32_def setUint8_def setUint16_def)
  show ?thesis
    using decodeHeader_encodeFrame [OF assms, of ty "[]"]
    by (simp add: decodeFrame_def length_encodeFrame FRAME_HEADER_SIZE_def frameOf_def d)
qed


lemma read_encodeFrame:
  assumes "fl < 256" "sq < 65536" "length pl < 2 ^ 32"
  shows "read \<lparr> buffer = encodeFrame ty pl fl sq @ rest \<rparr>
           = (Some (frameOf ty pl fl sq), \<lparr> buffer = rest \<rparr>)"
proof -
  have d: "drop 8 (encodeFrame ty pl fl sq) = pl"
    by (simp add: encodeFrame_def setUint32_def setUint8_def setUint16_def)
  show ?thesis
    using decodeHeader_encodeFrame [OF assms, of ty rest]
    by (simp add: read_def length_encodeFrame FRAME_HEADER_SIZE_def frameOf_def d)
qed

lemma decodeHeader_append:
  "decodeHeader b = Some h \<Longrightarrow> decodeHeader (b @ d) = Some h"
  by (auto simp: decodeHeader_def FRAME_HEADER_SIZE_def getUint32_def getUint8_def
        getUint16_def nth_append split: if_splits)

lemma read_append:
  assumes "read r = (Some f, r')"
  shows "read (append r d) = (Some f, append r' d)"
proof -
  from assms obtain h where h: "decodeHeader (buffer r) = Some h"
    and l8: "8 \<le> length (buffer r)" and lf: "8 + length_of h \<le> length (buffer r)"
    and f: "f = \<lparr> header = h, payload = take (length_of h) (drop 8 (buffer r)) \<rparr>"
    and r': "r' = r\<lparr> buffer := drop (8 + length_of h) (buffer r) \<rparr>"
    by (auto simp: read_def FRAME_HEADER_SIZE_def Let_def split: if_splits option.splits)
  show ?thesis
    using decodeHeader_append [OF h, of d] l8 lf
    by (simp add: read_def append_def FRAME_HEADER_SIZE_def f r')
qed

lemma read_None: "read r = (None, r') \<Longrightarrow> r' = r"
  by (auto simp: read_def Let_def split: if_splits option.splits)

lemma readAll_drained: "readAll r = (fs, r') \<Longrightarrow> read r' = (None, r')"
proof (induction r arbitrary: fs r' rule: readAll.induct)
  case (1 r)
  obtain o1 r1 where rd: "read r = (o1, r1)" by (cases "read r")
  show ?case
  proof (cases o1)
    case None
    with rd "1.prems" have "r' = r1" by (simp add: readAll.simps [of r])
    moreover from rd None have "r1 = r" by (simp add: read_None)
    ultimately show ?thesis using rd None by simp
  next
    case (Some f)
    obtain gs r2 where ra: "readAll r1 = (gs, r2)" by (cases "readAll r1")
    with rd Some "1.prems" have "r' = r2" by (simp add: readAll.simps [of r])
    with "1.IH" [OF rd [symmetric] Some ra] show ?thesis by simp
  qed
qed

lemma readAll_append:
  "readAll (append r d) =
     (case readAll r of (fs, r') \<Rightarrow> case readAll (append r' d) of (gs, r'') \<Rightarrow> (fs @ gs, r''))"
proof (induction r rule: readAll.induct)
  case (1 r)
  obtain o1 r1 where rd: "read r = (o1, r1)" by (cases "read r")
  show ?case
  proof (cases o1)
    case None
    with rd have "r1 = r" by (simp add: read_None)
    with rd None have "readAll r = ([], r)" by (simp add: readAll.simps [of r])
    then show ?thesis by (simp split: prod.splits)
  next
    case (Some f)
    have a: "read (append r d) = (Some f, append r1 d)"
      using read_append rd Some by simp
    have "readAll (append r d) = (case readAll (append r1 d) of (fs, r'') \<Rightarrow> (f # fs, r''))"
      by (subst readAll.simps) (simp add: a)
    moreover have "readAll r = (case readAll r1 of (fs, r'') \<Rightarrow> (f # fs, r''))"
      by (subst readAll.simps) (simp add: rd Some)
    ultimately show ?thesis
      using "1.IH" [OF rd [symmetric] Some] by (simp split: prod.splits)
  qed
qed

lemma append_append: "append (append r c) d = append r (c @ d)"
  by (simp add: append_def)

lemma readFromColumn_readAll:
  "read r = (None, r) \<Longrightarrow> readFromColumn r cs = readAll (append r (concat cs))"
proof (induction cs arbitrary: r)
  case Nil
  then show ?case by (simp add: append_def readAll.simps [of r])
next
  case (Cons c cs)
  obtain fs r1 where ra: "readAll (append r c) = (fs, r1)" by (cases "readAll (append r c)")
  have dr: "read r1 = (None, r1)" using readAll_drained [OF ra] .
  have "readAll (append (append r c) (concat cs)) =
          (case readAll (append r1 (concat cs)) of (gs, r'') \<Rightarrow> (fs @ gs, r''))"
    by (subst readAll_append) (simp add: ra)
  then show ?case
    using Cons.IH [OF dr] by (simp add: ra append_append)
qed

lemma readAll_encodeAll:
  assumes "\<forall>(ty, pl, fl, sq) \<in> set fs. fl < 256 \<and> sq < 65536 \<and> length pl < 2 ^ 32"
  shows "readAll \<lparr> buffer = encodeAll fs \<rparr>
           = (map (\<lambda>(ty, pl, fl, sq). frameOf ty pl fl sq) fs, \<lparr> buffer = [] \<rparr>)"
  using assms
proof (induction fs)
  case Nil
  then show ?case by (simp add: readAll.simps [of "\<lparr> buffer = [] \<rparr>"] read_def FRAME_HEADER_SIZE_def)
next
  case (Cons a fs)
  obtain ty pl fl sq where a: "a = (ty, pl, fl, sq)" by (cases a)
  from Cons.prems a have b: "fl < 256" "sq < 65536" "length pl < 2 ^ 32" by auto
  from Cons have ih: "readAll \<lparr> buffer = encodeAll fs \<rparr>
           = (map (\<lambda>(ty, pl, fl, sq). frameOf ty pl fl sq) fs, \<lparr> buffer = [] \<rparr>)" by simp
  show ?case
    by (subst readAll.simps) (simp add: a read_encodeFrame [OF b] ih)
qed

lemma read_incomplete:
  assumes "fl < 256" "sq < 65536" "length pl < 2 ^ 32"
    and "n < length (encodeFrame ty pl fl sq)"
  shows "read \<lparr> buffer = take n (encodeFrame ty pl fl sq) \<rparr>
           = (None, \<lparr> buffer = take n (encodeFrame ty pl fl sq) \<rparr>)"
proof -
  define b where "b = take n (encodeFrame ty pl fl sq)"
  have lb: "length b = n" using assms(4) by (simp add: b_def)
  have lt: "n < 8 + length pl" using assms(4) by (simp add: length_encodeFrame)
  have "read \<lparr> buffer = b \<rparr> = (None, \<lparr> buffer = b \<rparr>)"
  proof (cases "n < 8")
    case True
    then show ?thesis by (simp add: read_def FRAME_HEADER_SIZE_def lb)
  next
    case False
    then have "8 \<le> n" by simp
    from decodeHeader_prefix [OF assms(1-3) this, of ty "[]"]
    have "decodeHeader b = Some (header (frameOf ty pl fl sq))" by (simp add: b_def)
    then show ?thesis
      using lt by (simp add: read_def FRAME_HEADER_SIZE_def frameOf_def lb)
  qed
  then show ?thesis by (simp add: b_def)
qed


text \<open>
  Claim C1.  For every message type, every \<open>flags \<le> 255\<close>, \<open>seq \<le> 65535\<close> and every payload
  shorter than \<open>2^32\<close> bytes, decoding the bytes produced by \<open>encodeFrame\<close> succeeds; the
  header carries the payload length, the type's wire value, the flags and the sequence
  number, and the payload is returned byte for byte.
\<close>

theorem frame_codec_roundtrip:
  assumes "flags \<le> 255" and "seq \<le> 65535" and "length pl < 2 ^ 32"
  shows "decodeFrame (encodeFrame ty pl flags seq) =
           Some \<lparr> header = \<lparr> length_of = length pl, type_of = MessageType_value ty,
                                flags_of = flags, seq_of = seq \<rparr>,
                   payload = pl \<rparr>"
proof -
  from assms have "flags < 256" "seq < 65536" by simp_all
  from decodeFrame_encodeFrame [OF this assms(3)] show ?thesis
    by (simp add: frameOf_def)
qed

theorem frame_codec_roundtrip_witness:
  "(2::nat) \<le> 255 \<and> (7::nat) \<le> 65535 \<and> length [1, 2 :: byte] < 2 ^ 32 \<and>
   decodeFrame (encodeFrame PING [1, 2] 2 7) =
     Some \<lparr> header = \<lparr> length_of = 2, type_of = 3, flags_of = 2, seq_of = 7 \<rparr>,
             payload = [1, 2] \<rparr>"
  using frame_codec_roundtrip [of 2 7 "[1, 2]" PING] by simp

text \<open>
  Claim C2.  Let \<open>fs\<close> be any sequence of frames (each within the field widths) and
  \<open>chunks\<close> any way of cutting the concatenation of their encodings into pieces.  Feeding
  the pieces to a fresh reader, draining it with \<open>readAll\<close> after every \<open>append\<close>, yields
  exactly the frames of \<open>fs\<close>, in order, with their payloads, and leaves the buffer empty.
  A \<open>read\<close> on a buffer shorter than a header, or holding only a proper prefix of an
  encoded frame, returns \<open>None\<close> and leaves the reader as it was.
\<close>

theorem frame_reader_reassembly:
  assumes "\<forall>(ty, pl, fl, sq) \<in> set fs. fl \<le> 255 \<and> sq \<le> 65535 \<and> length pl < 2 ^ 32"
    and "concat chunks = encodeAll fs"
  shows "readFromColumn newFrameReader chunks =
           (map (\<lambda>(ty, pl, fl, sq). frameOf ty pl fl sq) fs, \<lparr> buffer = [] \<rparr>)
         \<and> (\<forall>r. length (buffer r) < FRAME_HEADER_SIZE \<longrightarrow> read r = (None, r))
         \<and> (\<forall>ty pl fl sq n.
               fl \<le> 255 \<and> sq \<le> 65535 \<and> length pl < 2 ^ 32
               \<and> n < length (encodeFrame ty pl fl sq) \<longrightarrow>
               read \<lparr> buffer = take n (encodeFrame ty pl fl sq) \<rparr>
                 = (None, \<lparr> buffer = take n (encodeFrame ty pl fl sq) \<rparr>))"
proof (intro conjI allI impI)
  have v: "\<forall>(ty, pl, fl, sq) \<in> set fs. fl < 256 \<and> sq < 65536 \<and> length pl < 2 ^ 32"
    using assms(1) by fastforce
  have "read newFrameReader = (None, newFrameReader)"
    by (simp add: read_def newFrameReader_def FRAME_HEADER_SIZE_def)
  then have "readFromColumn newFrameReader chunks = readAll (append newFrameReader (concat chunks))"
    by (rule readFromColumn_readAll)
  also have "append newFrameReader (concat chunks) = \<lparr> buffer = encodeAll fs \<rparr>"
    by (simp add: append_def newFrameReader_def assms(2))
  finally show "readFromColumn newFrameReader chunks =
           (map (\<lambda>(ty, pl, fl, sq). frameOf ty pl fl sq) fs, \<lparr> buffer = [] \<rparr>)"
    by (simp add: readAll_encodeAll [OF v])
next
  fix r :: FrameReader
  assume "length (buffer r) < FRAME_HEADER_SIZE"
  then show "read r = (None, r)" by (simp add: read_def)
next
  fix ty pl and fl sq n :: nat
  assume a: "fl \<le> 255 \<and> sq \<le> 65535 \<and> length pl < 2 ^ 32
               \<and> n < length (encodeFrame ty pl fl sq)"
  then have "fl < 256" "sq < 65536" "length pl < 2 ^ 32" "n < length (encodeFrame ty pl fl sq)"
    by simp_all
  then show "read \<lparr> buffer = take n (encodeFrame ty pl fl sq) \<rparr>
                 = (None, \<lparr> buffer = take n (encodeFrame ty pl fl sq) \<rparr>)"
    by (rule read_incomplete)
qed


theorem frame_reader_reassembly_witness:
  "readFromColumn newFrameReader
       [[2, 0, 0, 0, 3], [0, 0, 0, 1, 2, 3, 0, 0, 0, 4], [], [0, 0, 0, 3, 4, 5]]
     = ([frameOf PING [1, 2] 0 0, frameOf PONG [3, 4, 5] 0 0], \<lparr> buffer = [] \<rparr>)
   \<and> read \<lparr> buffer = [2, 0, 0] \<rparr> = (None, \<lparr> buffer = [2, 0, 0] \<rparr>)
   \<and> read \<lparr> buffer = take 9 (encodeFrame PING [1, 2] 0 0) \<rparr>
         = (None, \<lparr> buffer = take 9 (encodeFrame PING [1, 2] 0 0) \<rparr>)"
proof -
  let ?fs = "[(PING, [1, 2 :: byte], 0 :: nat, 0 :: nat), (PONG, [3, 4, 5], 0, 0)]"
  let ?chunks = "[[2, 0, 0, 0, 3], [0, 0, 0, 1, 2, 3, 0, 0, 0, 4], [], [0, 0, 0, 3, 4, 5 :: byte]]"
  have v: "\<forall>(ty, pl, fl, sq) \<in> set ?fs. fl \<le> 255 \<and> sq \<le> 65535 \<and> length pl < 2 ^ 32"
    by simp
  have c: "concat ?chunks = encodeAll ?fs"
    by (simp add: encodeFrame_def setUint32_def setUint8_def setUint16_def)
  have l: "(9::nat) < length (encodeFrame PING [1, 2] 0 0)"
    by (simp add: encodeFrame_def setUint32_def setUint8_def setUint16_def)
  note t = frame_reader_reassembly [OF v c]
  from t have 1: "readFromColumn newFrameReader ?chunks
     = ([frameOf PING [1, 2] 0 0, frameOf PONG [3, 4, 5] 0 0], \<lparr> buffer = [] \<rparr>)"
    by simp
  from t have "length (buffer \<lparr> buffer = [2, 0, 0] \<rparr>) < FRAME_HEADER_SIZE \<longrightarrow>
      read \<lparr> buffer = [2, 0, 0] \<rparr> = (None, \<lparr> buffer = [2, 0, 0] \<rparr>)"
    by blast
  then have 2: "read \<lparr> buffer = [2, 0, 0] \<rparr> = (None, \<lparr> buffer = [2, 0, 0] \<rparr>)"
    by (simp add: FRAME_HEADER_SIZE_def)
  from t have "(0::nat) \<le> 255 \<and> (0::nat) \<le> 65535 \<and> length [1, 2 :: byte] < 2 ^ 32
               \<and> 9 < length (encodeFrame PING [1, 2] 0 0) \<longrightarrow>
               read \<lparr> buffer = take 9 (encodeFrame PING [1, 2] 0 0) \<rparr>
                 = (None, \<lparr> buffer = take 9 (encodeFrame PING [1, 2] 0 0) \<rparr>)"
    by blast
  with l have 3: "read \<lparr> buffer = take 9 (encodeFrame PING [1, 2] 0 0) \<rparr>
                 = (None, \<lparr> buffer = take 9 (encodeFrame PING [1, 2] 0 0) \<rparr>)"
    by simp
  from 1 2 3 show ?thesis by blast
qed



section \<open>Properties of the projection\<close>

lemma project3D_front:
  assumes "azimuth proj = 0" "elevation proj = 0"
  shows "p2_x (project3D p proj) = centerX proj + p3_x p * zoom proj"
    and "p2_y (project3D p proj) = centerY proj - p3_z p * zoom proj * aspectRatio proj"
  using assms by (simp_all add: project3D_def Let_def)

lemma js_rem_nonneg:
  assumes "0 \<le> a" "0 < b"
  shows "js_rem a b = real_mod a b" "0 \<le> js_rem a b" "js_rem a b < b"
proof -
  from assms have q: "0 \<le> a / b" by simp
  then show e: "js_rem a b = real_mod a b" by (simp add: js_rem_def real_mod_def)
  have f1: "of_int \<lfloor>a / b\<rfloor> \<le> a / b" by simp
  have f2: "a / b < of_int \<lfloor>a / b\<rfloor> + 1" by linarith
  from f1 assms(2) have "b * of_int \<lfloor>a / b\<rfloor> \<le> b * (a / b)"
    by (intro mult_left_mono) simp_all
  with assms(2) have "b * of_int \<lfloor>a / b\<rfloor> \<le> a" by simp
  then show "0 \<le> js_rem a b" using q by (simp add: js_rem_def)
  from f2 assms(2) have "b * (a / b) < b * (of_int \<lfloor>a / b\<rfloor> + 1)"
    by (intro mult_strict_left_mono) simp_all
  with assms(2) have "a < b * (of_int \<lfloor>a / b\<rfloor> + 1)" by simp
  then show "js_rem a b < b" using q by (simp add: js_rem_def algebra_simps)
qed

lemma real_mod_shift: "m \<noteq> 0 \<Longrightarrow> real_mod (a + m) m = real_mod a m"
proof -
  assume m: "m \<noteq> 0"
  then have "(a + m) / m = a / m + 1" by (simp add: field_simps)
  then have "\<lfloor>(a + m) / m\<rfloor> = \<lfloor>a / m\<rfloor> + 1" by simp
  then show ?thesis by (simp add: real_mod_def algebra_simps)
qed

lemma rotateProjection_in_range:
  assumes "- 360 \<le> azimuth p + dAz"
  shows "azimuth (rotateProjection p dAz dEl) = real_mod (azimuth p + dAz) 360"
    and "0 \<le> azimuth (rotateProjection p dAz dEl)"
    and "azimuth (rotateProjection p dAz dEl) < 360"
  using assms js_rem_nonneg [of "azimuth p + dAz + 360" 360] real_mod_shift [of 360 "azimuth p + dAz"]
  by (simp_all add: rotateProjection_def)

lemma rotateProjection_elevation:
  "elevation (rotateProjection p dAz dEl) = max (-89) (min 89 (elevation p + dEl))"
  "- 89 \<le> elevation (rotateProjection p dAz dEl)"
  "elevation (rotateProjection p dAz dEl) \<le> 89"
  by (simp_all add: rotateProjection_def)

lemma zoomProjection_zoom:
  "zoom (zoomProjection p f) = max 1 (zoom p * f)" "0 < zoom (zoomProjection p f)"
  by (simp_all add: zoomProjection_def)


text \<open>
  Claim C6.  With azimuth and elevation 0 and aspect ratio 1, a point \<open>(x, y, z_val)\<close> is
  drawn at \<open>(centerX + x * zoom, centerY - z_val * zoom)\<close>; and with azimuth and elevation 0
  (whatever the aspect ratio) the origin is drawn at \<open>(centerX, centerY)\<close>.
\<close>

theorem project3D_front_view:
  assumes "azimuth proj = 0" and "elevation proj = 0"
  shows "(aspectRatio proj = 1 \<longrightarrow>
            p2_x (project3D \<lparr> p3_x = x, p3_y = y, p3_z = z_val \<rparr> proj)
              = centerX proj + x * zoom proj
          \<and> p2_y (project3D \<lparr> p3_x = x, p3_y = y, p3_z = z_val \<rparr> proj)
              = centerY proj - z_val * zoom proj)
       \<and> p2_x (project3D \<lparr> p3_x = 0, p3_y = 0, p3_z = 0 \<rparr> proj) = centerX proj
       \<and> p2_y (project3D \<lparr> p3_x = 0, p3_y = 0, p3_z = 0 \<rparr> proj) = centerY proj"
  using assms by (simp add: project3D_front)

theorem project3D_front_view_witness:
  "p2_x (project3D \<lparr> p3_x = 1, p3_y = 2, p3_z = 3 \<rparr>
           \<lparr> azimuth = 0, elevation = 0, zoom = 32, centerX = 40, centerY = 12,
             aspectRatio = 1 \<rparr>) = 72
   \<and> p2_y (project3D \<lparr> p3_x = 1, p3_y = 2, p3_z = 3 \<rparr>
           \<lparr> azimuth = 0, elevation = 0, zoom = 32, centerX = 40, centerY = 12,
             aspectRatio = 1 \<rparr>) = - 84
   \<and> p2_x (project3D \<lparr> p3_x = 0, p3_y = 0, p3_z = 0 \<rparr>
           \<lparr> azimuth = 0, elevation = 0, zoom = 32, centerX = 40, centerY = 12,
             aspectRatio = 1 \<rparr>) = 40
   \<and> p2_y (project3D \<lparr> p3_x = 0, p3_y = 0, p3_z = 0 \<rparr>
           \<lparr> azimuth = 0, elevation = 0, zoom = 32, centerX = 40, centerY = 12,
             aspectRatio = 1 \<rparr>) = 12"
  using project3D_front_view [of "\<lparr> azimuth = 0, elevation = 0, zoom = 32, centerX = 40,
    centerY = 12, aspectRatio = 1 \<rparr>" 1 2 3]
  by simp

text \<open>
  Claim C7.  The claim asks, for all deltas, for an azimuth equal to
  \<open>(azimuth + dAz) mod 360\<close> inside \<open>[0, 360)\<close>.  The code adds 360 once before taking the
  truncating remainder, which is enough only while \<open>azimuth + dAz \<ge> -360\<close> (lemma
  \<open>rotateProjection_in_range\<close>).  Dragging 130 columns to the left from azimuth 10 gives
  \<open>dAz = -390\<close>: the code returns azimuth \<open>-20\<close>, where the claim requires 340.
\<close>

theorem rotateProjection_large_negative_delta:
  "azimuth (rotateProjection \<lparr> azimuth = 10, elevation = 30, zoom = 32, centerX = 40,
          centerY = 12, aspectRatio = 1 / 2 \<rparr> (- 390) 0) = - 20
   \<and> real_mod (10 + (- 390)) 360 = 340"
proof -
  have "\<lceil>- (1 / 18) :: real\<rceil> = 0" by (rule ceiling_unique) simp_all
  moreover have "\<lfloor>- (19 / 18) :: real\<rfloor> = - 2" by (rule floor_unique) simp_all
  ultimately show ?thesis by (simp add: rotateProjection_def js_rem_def real_mod_def)
qed



section \<open>Properties of surfaces and interpolation\<close>

lemma minmax_loop_Finite:
  "minmax_loop v (Finite a, Finite b) =
     (Finite (Min (insert a (set v))), Finite (Max (insert b (set v))))"
proof (induction v arbitrary: a b)
  case Nil
  then show ?case by simp
next
  case (Cons val v)
  have mn: "Min (insert a (set (val # v))) = Min (insert (min a val) (set v))"
    by (cases "set v = {}") (simp_all add: min.assoc min.commute)
  have mx: "Max (insert b (set (val # v))) = Max (insert (max b val) (set v))"
    by (cases "set v = {}") (simp_all add: max.assoc max.commute)
  show ?case
    unfolding mn mx by (simp add: Cons.IH min_def max_def)
qed

lemma minmax_nonempty:
  assumes "v \<noteq> []"
  shows "minmax v = (Finite (Min (set v)), Finite (Max (set v)))"
proof -
  from assms obtain a w where v: "v = a # w" by (cases v) auto
  show ?thesis by (simp add: v minmax_def minmax_loop_Finite)
qed

lemma minmax_empty: "minmax [] = (Infinity, MinusInfinity)"
  by (simp add: minmax_def)


lemma findIndex_loop_bounds:
  "lo < hi \<Longrightarrow> lo \<le> findIndex_loop v t lo hi \<and> findIndex_loop v t lo hi < hi"
proof (induction v t lo hi rule: findIndex_loop.induct)
  case (1 v t lo hi)
  show ?case
  proof (cases "int lo < int hi - 1")
    case False
    with "1.prems" show ?thesis by (simp add: findIndex_loop.simps [of v t lo hi])
  next
    case True
    define mid where "mid = (lo + hi) div 2"
    from True have m: "lo < mid" "mid < hi" by (simp_all add: mid_def)
    show ?thesis
    proof (cases "case vget v mid of Some w \<Rightarrow> w \<le> t | None \<Rightarrow> False")
      case c: True
      with True have "findIndex_loop v t lo hi = findIndex_loop v t mid hi"
        by (subst findIndex_loop.simps) (simp add: mid_def)
      moreover from "1.IH"(1) [OF True mid_def c m(2)]
      have "mid \<le> findIndex_loop v t mid hi \<and> findIndex_loop v t mid hi < hi" .
      ultimately show ?thesis using m by simp
    next
      case c: False
      with True have "findIndex_loop v t lo hi = findIndex_loop v t lo mid"
        by (subst findIndex_loop.simps) (simp add: mid_def)
      moreover from "1.IH"(2) [OF True mid_def c m(1)]
      have "lo \<le> findIndex_loop v t lo mid \<and> findIndex_loop v t lo mid < mid" .
      ultimately show ?thesis using m by simp
    qed
  qed
qed

lemma findIndex_range:
  assumes "2 \<le> length v"
  shows "0 \<le> findIndex v t \<and> findIndex v t \<le> int (length v) - 2"
proof -
  have "0 < length v - 1" using assms by simp
  from findIndex_loop_bounds [OF this, of v t] assms
  show ?thesis by (auto simp: findIndex_def Let_def)
qed

lemma findIndex_below:
  "v \<noteq> [] \<Longrightarrow> t \<le> v ! 0 \<Longrightarrow> findIndex v t = 0"
  by (simp add: findIndex_def)

lemma strictly_increasing_first_last:
  assumes "strictly_increasing v" "2 \<le> length v"
  shows "v ! 0 < v ! (length v - 1)"
  using assms by (simp add: strictly_increasing_def sorted_wrt_iff_nth_less)

lemma findIndex_above:
  assumes "strictly_increasing v" "2 \<le> length v" "v ! (length v - 1) \<le> t"
  shows "findIndex v t = int (length v) - 2"
  using strictly_increasing_first_last [OF assms(1,2)] assms(2,3)
  by (auto simp: findIndex_def Let_def)

lemma clampIndex_range: "2 \<le> n \<Longrightarrow> clampIndex xi n \<le> n - 2"
  by (simp add: clampIndex_def)

lemma cell_index_bound:
  fixes x0 y0 ny0 nx0 :: nat
  assumes "x0 < nx0" "y0 < ny0"
  shows "x0 * ny0 + y0 < nx0 * ny0"
proof -
  have "x0 * ny0 + y0 < x0 * ny0 + ny0" using assms(2) by simp
  also have "\<dots> = (x0 + 1) * ny0" by simp
  also have "\<dots> \<le> nx0 * ny0" using assms(1) by (intro mult_right_mono) simp_all
  finally show ?thesis .
qed

lemma bilinearInterpolate_defined:
  assumes "surface_shape s" "2 \<le> nx s" "2 \<le> ny s"
  shows "\<exists>v. bilinearInterpolate s x y = Some v"
proof -
  obtain x0 y0 where c: "bilinearCell s x y = (x0, y0)" by (cases "bilinearCell s x y")
  from c have "x0 = clampIndex (findIndex (s_x s) x) (nx s)"
    and "y0 = clampIndex (findIndex (s_y s) y) (ny s)"
    by (simp_all add: bilinearCell_def)
  with clampIndex_range assms(2,3) have b: "x0 \<le> nx s - 2" "y0 \<le> ny s - 2" by simp_all
  with assms(2,3) have r: "x0 < nx s" "x0 + 1 < nx s" "y0 < ny s" "y0 + 1 < ny s" by simp_all
  have z: "x0 * ny s + y0 < nx s * ny s" "x0 * ny s + (y0 + 1) < nx s * ny s"
    "(x0 + 1) * ny s + y0 < nx s * ny s" "(x0 + 1) * ny s + (y0 + 1) < nx s * ny s"
    using r by (intro cell_index_bound; simp)+
  from assms(1) have l: "length (s_x s) = nx s" "length (s_y s) = ny s"
    "length (s_z s) = nx s * ny s" by (simp_all add: surface_shape_def)
  show ?thesis
    using r z unfolding bilinearInterpolate_def c
    by (simp add: vget_def l Let_def del: mult_Suc add_Suc_right)
qed


text \<open>
  Claim C10.  \<open>createSurface\<close> fails exactly when the length of \<open>z\<close> differs from the
  product of the lengths of \<open>x\<close> and \<open>y\<close>.  When it succeeds, \<open>nx\<close> and \<open>ny\<close> are the lengths
  of \<open>x\<close> and \<open>y\<close>, and each cached domain is the (minimum, maximum) of its vector, that
  is \<open>(Infinity, -Infinity)\<close> for an empty one.
\<close>

theorem createSurface_contract:
  "((\<exists>e. createSurface x y z labels now = Inl e) \<longleftrightarrow> length z \<noteq> length x * length y)
   \<and> (\<forall>s. createSurface x y z labels now = Inr s \<longrightarrow>
          nx s = length x \<and> ny s = length y
        \<and> xDomain (meta s) =
            (if x = [] then (Infinity, MinusInfinity)
             else (Finite (Min (set x)), Finite (Max (set x))))
        \<and> yDomain (meta s) =
            (if y = [] then (Infinity, MinusInfinity)
             else (Finite (Min (set y)), Finite (Max (set y))))
        \<and> zDomain (meta s) =
            (if z = [] then (Infinity, MinusInfinity)
             else (Finite (Min (set z)), Finite (Max (set z)))))"
proof -
  have m: "minmax v = (if v = [] then (Infinity, MinusInfinity)
             else (Finite (Min (set v)), Finite (Max (set v))))" for v
    using minmax_nonempty [of v] minmax_empty by simp
  show ?thesis
    unfolding createSurface_def Let_def m [symmetric] by auto
qed

theorem createSurface_contract_witness:
  "(\<exists>e. createSurface [1, 2] [10] [3]
          \<lparr> label_x = None, label_y = None, label_z = None \<rparr> 0 = Inl e)
   \<and> (\<exists>s. createSurface [1, 2] [10] [3, 1 / 2]
          \<lparr> label_x = None, label_y = None, label_z = None \<rparr> 0 = Inr s
        \<and> nx s = 2 \<and> ny s = 1
        \<and> xDomain (meta s) = (Finite 1, Finite 2)
        \<and> yDomain (meta s) = (Finite 10, Finite 10)
        \<and> zDomain (meta s) = (Finite (1 / 2), Finite 3))"
proof -
  let ?L = "\<lparr> label_x = None, label_y = None, label_z = None \<rparr>"
  have a: "\<exists>e. createSurface [1, 2] [10] [3] ?L 0 = Inl e"
    using createSurface_contract [of "[1, 2]" "[10]" "[3]" ?L 0] by simp
  obtain s where s: "createSurface [1, 2] [10] [3, 1 / 2] ?L 0 = Inr s"
    by (simp add: createSurface_def)
  with createSurface_contract [of "[1, 2]" "[10]" "[3, 1 / 2]" ?L 0]
  have "nx s = 2 \<and> ny s = 1
        \<and> xDomain (meta s) = (Finite 1, Finite 2)
        \<and> yDomain (meta s) = (Finite 10, Finite 10)
        \<and> zDomain (meta s) = (Finite (1 / 2), Finite 3)"
    by simp
  with a s show ?thesis by blast
qed

lemma findIndex_loop_bracket:
  "lo < hi \<Longrightarrow> hi < length v \<Longrightarrow> v ! lo \<le> t \<Longrightarrow> t < v ! hi \<Longrightarrow>
     lo \<le> findIndex_loop v t lo hi \<and> findIndex_loop v t lo hi < hi
     \<and> v ! findIndex_loop v t lo hi \<le> t \<and> t < v ! (findIndex_loop v t lo hi + 1)"
proof (induction v t lo hi rule: findIndex_loop.induct)
  case (1 v t lo hi)
  show ?case
  proof (cases "int lo < int hi - 1")
    case False
    then have e: "findIndex_loop v t lo hi = lo"
      by (simp add: findIndex_loop.simps [of v t lo hi])
    from False "1.prems" have "hi = lo + 1" by simp
    with "1.prems" show ?thesis unfolding e by simp
  next
    case True
    define mid where "mid = (lo + hi) div 2"
    from True have m: "lo < mid" "mid < hi" by (simp_all add: mid_def)
    with "1.prems" have g: "vget v mid = Some (v ! mid)" by (simp add: vget_def)
    show ?thesis
    proof (cases "v ! mid \<le> t")
      case c: True
      then have c': "case vget v mid of Some w \<Rightarrow> w \<le> t | None \<Rightarrow> False" by (simp add: g)
      with True have e: "findIndex_loop v t lo hi = findIndex_loop v t mid hi"
        by (subst findIndex_loop.simps) (simp add: mid_def)
      from "1.IH"(1) [OF True mid_def c' m(2) "1.prems"(2) c "1.prems"(4)] m
      show ?thesis unfolding e by simp
    next
      case c: False
      then have c': "\<not> (case vget v mid of Some w \<Rightarrow> w \<le> t | None \<Rightarrow> False)" by (simp add: g)
      with True have e: "findIndex_loop v t lo hi = findIndex_loop v t lo mid"
        by (subst findIndex_loop.simps) (simp add: mid_def)
      from m "1.prems" have ml: "mid < length v" by simp
      from c have lt: "t < v ! mid" by simp
      from "1.IH"(2) [OF True mid_def c' m(1) ml "1.prems"(3) lt] m
      show ?thesis unfolding e by simp
    qed
  qed
qed

lemma findIndex_inside:
  assumes "2 \<le> length v" "v ! 0 < t" "t < v ! (length v - 1)"
  shows "\<exists>i. findIndex v t = int i \<and> i + 1 < length v \<and> v ! i \<le> t \<and> t < v ! (i + 1)"
proof -
  have "0 < length v - 1" "length v - 1 < length v" using assms(1) by simp_all
  from findIndex_loop_bracket [OF this, of t] assms(2,3)
  have b: "findIndex_loop v t 0 (length v - 1) < length v - 1"
    "v ! findIndex_loop v t 0 (length v - 1) \<le> t"
    "t < v ! (findIndex_loop v t 0 (length v - 1) + 1)" by simp_all
  have "v \<noteq> []" using assms(1) by auto
  then have "findIndex v t = int (findIndex_loop v t 0 (length v - 1))"
    using assms by (simp add: findIndex_def Let_def)
  with b show ?thesis by (intro exI [of _ "findIndex_loop v t 0 (length v - 1)"]) simp
qed

lemma bracket_unique:
  assumes "strictly_increasing v" "i + 1 < length v" "k + 1 < length v"
    "v ! i \<le> t" "t < v ! (i + 1)" "v ! k \<le> t" "t < v ! (k + 1)"
  shows "i = k"
proof (rule ccontr)
  assume ne: "i \<noteq> k"
  have mono: "a < b \<Longrightarrow> b < length v \<Longrightarrow> v ! a < v ! b" for a b
    using assms(1) by (simp add: strictly_increasing_def sorted_wrt_iff_nth_less)
  have mono': "a \<le> b \<Longrightarrow> b < length v \<Longrightarrow> v ! a \<le> v ! b" for a b
    using mono [of a b] by (cases "a = b") auto
  from ne consider "i + 1 \<le> k" | "k + 1 \<le> i" by linarith
  then show False
  proof cases
    case 1
    with mono' [of "i + 1" k] assms(3) have "v ! (i + 1) \<le> v ! k" by simp
    with assms(5,6) show False by simp
  next
    case 2
    with mono' [of "k + 1" i] assms(2) have "v ! (k + 1) \<le> v ! i" by simp
    with assms(4,7) show False by simp
  qed
qed

text \<open>
  The index that \<open>bilinearInterpolate\<close> uses on one axis: 0 at or below the first value,
  \<open>n - 2\<close> at or above the last, and otherwise the one interval that holds the query.
\<close>

lemma cell_index_characterised:
  assumes "strictly_increasing v" "2 \<le> length v"
  shows "findIndex v t = int (clampIndex (findIndex v t) (length v))"
    and "clampIndex (findIndex v t) (length v) + 1 < length v"
    and "t \<le> v ! 0 \<Longrightarrow> clampIndex (findIndex v t) (length v) = 0"
    and "v ! (length v - 1) \<le> t \<Longrightarrow> clampIndex (findIndex v t) (length v) = length v - 2"
    and "v ! 0 < t \<Longrightarrow> t < v ! (length v - 1) \<Longrightarrow> i + 1 < length v \<Longrightarrow>
           (v ! i \<le> t \<and> t < v ! (i + 1)) \<longleftrightarrow> i = clampIndex (findIndex v t) (length v)"
proof -
  from findIndex_range [OF assms(2), of t]
  have r: "0 \<le> findIndex v t" "findIndex v t \<le> int (length v) - 2" by simp_all
  then show c: "findIndex v t = int (clampIndex (findIndex v t) (length v))"
    by (simp add: clampIndex_def)
  show "clampIndex (findIndex v t) (length v) + 1 < length v"
    using clampIndex_range [OF assms(2), of "findIndex v t"] assms(2) by simp
  have ne: "v \<noteq> []" using assms(2) by auto
  show "t \<le> v ! 0 \<Longrightarrow> clampIndex (findIndex v t) (length v) = 0"
    using findIndex_below [OF ne, of t] by (simp add: clampIndex_def)
  show "v ! (length v - 1) \<le> t \<Longrightarrow> clampIndex (findIndex v t) (length v) = length v - 2"
    using findIndex_above [OF assms, of t] assms(2) by (auto simp: clampIndex_def)
  show "(v ! i \<le> t \<and> t < v ! (i + 1)) \<longleftrightarrow> i = clampIndex (findIndex v t) (length v)"
    if h: "v ! 0 < t" "t < v ! (length v - 1)" "i + 1 < length v"
  proof -
    from findIndex_inside [OF assms(2) h(1,2)] obtain k where
      k: "findIndex v t = int k" "k + 1 < length v" "v ! k \<le> t" "t < v ! (k + 1)" by blast
    from k(1) c have ck: "clampIndex (findIndex v t) (length v) = k" by simp
    show ?thesis
    proof
      assume "v ! i \<le> t \<and> t < v ! (i + 1)"
      with bracket_unique [OF assms(1) h(3) k(2) _ _ k(3,4)] show "i = clampIndex (findIndex v t) (length v)"
        unfolding ck by blast
    next
      assume "i = clampIndex (findIndex v t) (length v)"
      with ck k show "v ! i \<le> t \<and> t < v ! (i + 1)" by simp
    qed
  qed
qed


text \<open>
  Claim C8.  On a surface of the documented shape with at least two points on each
  strictly increasing axis, \<open>bilinearInterpolate\<close> returns a number for every query: the
  cell it uses lies inside the grid, so no read leaves its array, and nothing can throw.
  On each axis separately the cell index is what \<open>findIndex\<close> returns: 0 for a query at or
  below the first axis value, \<open>n - 2\<close> at or above the last, and for a query strictly
  between them the one index \<open>i\<close> with \<open>v[i] \<le> query < v[i+1]\<close>.  A query outside the
  rectangle in one coordinate is therefore served by the boundary cell in that coordinate
  and by the enclosing interval in the other.
\<close>

theorem bilinearInterpolate_total_and_clamped:
  assumes "surface_shape s" and "2 \<le> nx s" and "2 \<le> ny s"
    and "strictly_increasing (s_x s)" and "strictly_increasing (s_y s)"
  shows "(\<exists>v. bilinearInterpolate s x y = Some v)
       \<and> (x \<le> s_x s ! 0 \<longrightarrow>
            findIndex (s_x s) x = 0 \<and> fst (bilinearCell s x y) = 0)
       \<and> (s_x s ! (nx s - 1) \<le> x \<longrightarrow>
            findIndex (s_x s) x = int (nx s) - 2 \<and> fst (bilinearCell s x y) = nx s - 2)
       \<and> (y \<le> s_y s ! 0 \<longrightarrow>
            findIndex (s_y s) y = 0 \<and> snd (bilinearCell s x y) = 0)
       \<and> (s_y s ! (ny s - 1) \<le> y \<longrightarrow>
            findIndex (s_y s) y = int (ny s) - 2 \<and> snd (bilinearCell s x y) = ny s - 2)
       \<and> findIndex (s_x s) x = int (fst (bilinearCell s x y))
       \<and> findIndex (s_y s) y = int (snd (bilinearCell s x y))
       \<and> fst (bilinearCell s x y) + 1 < nx s \<and> snd (bilinearCell s x y) + 1 < ny s
       \<and> (fst (bilinearCell s x y) + 1) * ny s + (snd (bilinearCell s x y) + 1)
             < length (s_z s)
       \<and> (s_x s ! 0 < x \<and> x < s_x s ! (nx s - 1) \<longrightarrow>
            (\<forall>i. i + 1 < nx s \<longrightarrow>
               ((s_x s ! i \<le> x \<and> x < s_x s ! (i + 1)) \<longleftrightarrow> i = fst (bilinearCell s x y))))
       \<and> (s_y s ! 0 < y \<and> y < s_y s ! (ny s - 1) \<longrightarrow>
            (\<forall>j. j + 1 < ny s \<longrightarrow>
               ((s_y s ! j \<le> y \<and> y < s_y s ! (j + 1)) \<longleftrightarrow> j = snd (bilinearCell s x y))))"
proof -
  from assms(1) have l: "length (s_x s) = nx s" "length (s_y s) = ny s"
    "length (s_z s) = nx s * ny s"
    by (simp_all add: surface_shape_def)
  have lx: "2 \<le> length (s_x s)" and ly: "2 \<le> length (s_y s)" using l assms(2,3) by simp_all
  have c: "fst (bilinearCell s x y) = clampIndex (findIndex (s_x s) x) (length (s_x s))"
    "snd (bilinearCell s x y) = clampIndex (findIndex (s_y s) y) (length (s_y s))"
    by (simp_all add: bilinearCell_def l)
  note cx = cell_index_characterised [OF assms(4) lx, of x, folded c(1), unfolded l]
  note cy = cell_index_characterised [OF assms(5) ly, of y, folded c(2), unfolded l]
  have 1: "\<exists>v. bilinearInterpolate s x y = Some v"
    using assms(1-3) by (rule bilinearInterpolate_defined)
  have 2: "x \<le> s_x s ! 0 \<longrightarrow> findIndex (s_x s) x = 0 \<and> fst (bilinearCell s x y) = 0"
    using cx(1,3) by simp
  have 3: "s_x s ! (nx s - 1) \<le> x \<longrightarrow>
            findIndex (s_x s) x = int (nx s) - 2 \<and> fst (bilinearCell s x y) = nx s - 2"
    using cx(1,4) assms(2) by auto
  have 4: "y \<le> s_y s ! 0 \<longrightarrow> findIndex (s_y s) y = 0 \<and> snd (bilinearCell s x y) = 0"
    using cy(1,3) by simp
  have 5: "s_y s ! (ny s - 1) \<le> y \<longrightarrow>
            findIndex (s_y s) y = int (ny s) - 2 \<and> snd (bilinearCell s x y) = ny s - 2"
    using cy(1,4) assms(3) by auto
  have 6: "(fst (bilinearCell s x y) + 1) * ny s + (snd (bilinearCell s x y) + 1)
             < length (s_z s)"
    unfolding l using cx(2) cy(2) by (rule cell_index_bound)
  have 7: "s_x s ! 0 < x \<and> x < s_x s ! (nx s - 1) \<longrightarrow>
            (\<forall>i. i + 1 < nx s \<longrightarrow>
               ((s_x s ! i \<le> x \<and> x < s_x s ! (i + 1)) \<longleftrightarrow> i = fst (bilinearCell s x y)))"
    using cx(5) by blast
  have 8: "s_y s ! 0 < y \<and> y < s_y s ! (ny s - 1) \<longrightarrow>
            (\<forall>j. j + 1 < ny s \<longrightarrow>
               ((s_y s ! j \<le> y \<and> y < s_y s ! (j + 1)) \<longleftrightarrow> j = snd (bilinearCell s x y)))"
    using cy(5) by blast
  from 1 2 3 4 5 6 7 8 cx(1,2) cy(1,2) show ?thesis by blast
qed

theorem bilinearInterpolate_total_and_clamped_witness:
  "(\<exists>v. bilinearInterpolate
          \<lparr> s_x = [1, 2, 3], s_y = [10, 20, 30], s_z = [1, 2, 3, 4, 5, 6, 7, 8, 9],
            nx = 3, ny = 3,
            meta = \<lparr> xLabel = ''X'', yLabel = ''Y'', zLabel = ''Z'',
                     xDomain = (Finite 1, Finite 3), yDomain = (Finite 10, Finite 30),
                     zDomain = (Finite 1, Finite 9), timestamp = 0 \<rparr> \<rparr> 5 25 = Some v)
   \<and> findIndex [1, 2, 3] 5 = 1 \<and> findIndex [10, 20, 30] 25 = 1
   \<and> bilinearCell
          \<lparr> s_x = [1, 2, 3], s_y = [10, 20, 30], s_z = [1, 2, 3, 4, 5, 6, 7, 8, 9],
            nx = 3, ny = 3,
            meta = \<lparr> xLabel = ''X'', yLabel = ''Y'', zLabel = ''Z'',
                     xDomain = (Finite 1, Finite 3), yDomain = (Finite 10, Finite 30),
                     zDomain = (Finite 1, Finite 9), timestamp = 0 \<rparr> \<rparr> 5 25 = (1, 1)"
proof -
  define s where "s = \<lparr> s_x = [1, 2, 3], s_y = [10, 20, 30], s_z = [1, 2, 3, 4, 5, 6, 7, 8, 9],
            nx = 3, ny = 3,
            meta = \<lparr> xLabel = ''X'', yLabel = ''Y'', zLabel = ''Z'',
                     xDomain = (Finite 1, Finite 3), yDomain = (Finite 10, Finite 30),
                     zDomain = (Finite 1, Finite 9), timestamp = 0 \<rparr> \<rparr>"
  have h: "surface_shape s" "2 \<le> nx s" "2 \<le> ny s"
    "strictly_increasing (s_x s)" "strictly_increasing (s_y s)"
    by (simp_all add: surface_shape_def strictly_increasing_def s_def)
  have f: "s_x s = [1, 2, 3]" "s_y s = [10, 20, 30]" "nx s = 3" "ny s = 3"
    by (simp_all add: s_def)
  note t = bilinearInterpolate_total_and_clamped [OF h, of 5 25]
  from t have a: "\<exists>v. bilinearInterpolate s 5 25 = Some v" by blast
  from t have "s_x s ! (nx s - 1) \<le> 5 \<longrightarrow>
            findIndex (s_x s) 5 = int (nx s) - 2 \<and> fst (bilinearCell s 5 25) = nx s - 2"
    by blast
  then have b: "findIndex [1, 2, 3] 5 = 1" "fst (bilinearCell s 5 25) = 1"
    unfolding f by simp_all
  have p: "s_y s ! 0 < 25 \<and> 25 < s_y s ! (ny s - 1)" unfolding f by simp
  from t p have q: "\<forall>j. j + 1 < ny s \<longrightarrow>
               ((s_y s ! j \<le> 25 \<and> 25 < s_y s ! (j + 1)) \<longleftrightarrow> j = snd (bilinearCell s 5 25))"
    by blast
  have "(1 :: nat) + 1 < ny s" "s_y s ! 1 \<le> 25 \<and> 25 < s_y s ! (1 + 1)"
    unfolding f by simp_all
  with q have c: "snd (bilinearCell s 5 25) = 1" by metis
  from t have "findIndex (s_y s) 25 = int (snd (bilinearCell s 5 25))" by blast
  then have d: "findIndex [10, 20, 30] 25 = 1" unfolding f c by simp
  from b(2) c have "bilinearCell s 5 25 = (1, 1)" by (simp add: prod_eq_iff)
  with a b(1) d show ?thesis unfolding s_def by blast
qed



section \<open>Properties of the surface codec\<close>

lemma length_setUint32 [simp]: "length (setUint32 n) = 4"
  by (simp add: setUint32_def)

lemma getUint32_at:
  assumes "n < 2 ^ 32"
  shows "getUint32 (a @ setUint32 n @ rest) (length a) = n"
proof -
  have "getUint32 (a @ setUint32 n @ rest) (length a) = getUint32 (setUint32 n @ rest) 0"
    by (simp add: getUint32_def nth_append setUint32_def)
  with getUint32_setUint32 [OF assms] show ?thesis by simp
qed

lemma length_store:
  "f32_width P \<Longrightarrow> length (concat (map (f32_bytes P) vs)) = 4 * length vs"
  by (induction vs) (simp_all add: f32_width_def)

lemma loadFloats_store:
  assumes "f32_width P"
  shows "loadFloats P (concat (map (f32_bytes P) vs) @ rest) (length vs) = map (fround P) vs"
proof (induction vs)
  case Nil
  then show ?case by simp
next
  case (Cons v vs)
  from assms have l: "length (f32_bytes P v) = 4" by (simp add: f32_width_def)
  then show ?case using Cons by (simp add: fround_def)
qed

lemma padding_aligns: "(headerSize n + padding n) mod 4 = 0" "padding n < 4"
proof -
  define q r where "q = n div 4" and "r = n mod 4"
  have n: "n = 4 * q + r" and r: "r < 4" by (simp_all add: q_def r_def)
  define k where "k = q + 3"
  have e: "headerSize n = r + 4 * k" unfolding headerSize_def n k_def by simp
  have h: "headerSize n mod 4 = r" unfolding e using r by simp
  from r have "r = 0 \<or> r = 1 \<or> r = 2 \<or> r = 3" by arith
  then show "(headerSize n + padding n) mod 4 = 0"
  proof (elim disjE)
    assume "r = 0"
    then show ?thesis unfolding padding_def h unfolding e by simp
  next
    assume "r = 1"
    then show ?thesis unfolding padding_def h unfolding e by simp
  next
    assume "r = 2"
    then show ?thesis unfolding padding_def h unfolding e by simp
  next
    assume "r = 3"
    then show ?thesis unfolding padding_def h unfolding e by simp
  qed
  show "padding n < 4" unfolding padding_def by simp
qed


lemma deviation_self: "deviation v v = 0"
  unfolding deviation_def by (induction v) simp_all

lemma map_fround_exact:
  "\<forall>v \<in> set vs. f32_representable P v \<Longrightarrow> map (fround P) vs = vs"
  by (induction vs) (simp_all add: f32_representable_def)

lemma serializeSurfacePayload_shaped:
  assumes "surface_shape s"
  shows "serializeSurfacePayload P s =
     Inr (setUint32 (nx s) @ setUint32 (ny s) @ setUint32 (length (json_bytes P (meta s)))
          @ json_bytes P (meta s) @ replicate (padding (length (json_bytes P (meta s)))) 0
          @ concat (map (f32_bytes P) (s_x s @ s_y s @ s_z s)))"
  using assms
  by (simp add: serializeSurfacePayload_def storeFloats_def surface_shape_def Let_def)

lemma deserialize_payload:
  assumes w: "f32_width P"
    and n: "nx0 < 2 ^ 32" "ny0 < 2 ^ 32" "length mb < 2 ^ 32"
    and p: "json_parse P mb = Some (JsonObject m)"
    and l: "length vx = nx0" "length vy = ny0" "length vz = nx0 * ny0"
    and r: "\<forall>v \<in> set (vx @ vy @ vz). f32_representable P v"
  shows "deserializeSurface P
           (setUint32 nx0 @ setUint32 ny0 @ setUint32 (length mb) @ mb
             @ replicate (padding (length mb)) 0 @ concat (map (f32_bytes P) (vx @ vy @ vz)))
         = Inr \<lparr> s_x = vx, s_y = vy, s_z = vz, nx = nx0, ny = ny0, meta = m \<rparr>"
proof -
  define fl where "fl = concat (map (f32_bytes P) (vx @ vy @ vz))"
  define pad where "pad = replicate (padding (length mb)) (0 :: byte)"
  define pl where "pl = setUint32 nx0 @ setUint32 ny0 @ setUint32 (length mb) @ mb @ pad @ fl"
  have lfl: "length fl = 4 * (nx0 + ny0 + nx0 * ny0)"
    unfolding fl_def using length_store [OF w, of "vx @ vy @ vz"] l by simp
  have lpl: "length pl = 12 + length mb + padding (length mb) + 4 * (nx0 + ny0 + nx0 * ny0)"
    by (simp add: pl_def pad_def lfl)
  have g0: "getUint32 pl 0 = nx0"
    using getUint32_at [OF n(1), of "[]"] by (simp add: pl_def)
  have g4: "getUint32 pl 4 = ny0"
    using getUint32_at [OF n(2), of "setUint32 nx0"] by (simp add: pl_def)
  have g8: "getUint32 pl 8 = length mb"
    using getUint32_at [OF n(3), of "setUint32 nx0 @ setUint32 ny0"] by (simp add: pl_def)
  have mb: "take (length mb) (drop 12 pl) = mb" by (simp add: pl_def)
  have al: "(12 + length mb + padding (length mb)) mod 4 = 0"
    using padding_aligns(1) [of "length mb"] by (simp add: headerSize_def)
  have dr: "drop (12 + length mb + padding (length mb)) pl = fl"
    by (simp add: pl_def pad_def)
  define vs where "vs = vx @ vy @ vz"
  have lvs: "length vs = nx0 + ny0 + nx0 * ny0" using l by (simp add: vs_def)
  have ex: "map (fround P) vs = vs" unfolding vs_def using r by (rule map_fround_exact)
  have "loadFloats P (concat (map (f32_bytes P) vs) @ []) (length vs) = map (fround P) vs"
    using w by (rule loadFloats_store)
  then have ld: "loadFloats P fl (nx0 + ny0 + nx0 * ny0) = vx @ vy @ vz"
    unfolding lvs ex unfolding vs_def fl_def by simp
  have "deserializeSurface P pl
         = Inr \<lparr> s_x = vx, s_y = vy, s_z = vz, nx = nx0, ny = ny0, meta = m \<rparr>"
    unfolding deserializeSurface_def Let_def g0 g4 g8 mb p
    using al lpl l by (simp add: dr ld)
  then show ?thesis by (simp add: pl_def pad_def fl_def)
qed


text \<open>
  Claim C3.  Let the host store \<open>Float32Array\<close> elements in four bytes and let the labels of
  the surface's metadata survive the JSON round trip.  For a surface of the documented
  shape with \<open>nx, ny \<ge> 1\<close>, whose values are all exactly representable as 32-bit floats, and
  whose payload fits the 32-bit length field of a frame: \<open>serializeSurface\<close> produces a frame
  that \<open>decodeFrame\<close> accepts, and \<open>deserializeSurface\<close> on its payload returns a surface with
  the same \<open>nx\<close>, \<open>ny\<close> and labels and the same \<open>x\<close>, \<open>y\<close>, \<open>z\<close> values, so that the summed absolute
  deviation is below \<open>10^-6 * nx * ny\<close>.  The floats start right after the metadata block
  padded to a multiple of four bytes.
\<close>

theorem surface_codec_roundtrip:
  assumes "f32_width P" and "json_keeps_labels P (meta s)"
    and "surface_shape s" and "1 \<le> nx s" and "1 \<le> ny s"
    and "\<forall>v \<in> set (s_x s) \<union> set (s_y s) \<union> set (s_z s). f32_representable P v"
    and "headerSize (length (json_bytes P (meta s))) + padding (length (json_bytes P (meta s)))
           + 4 * (nx s + ny s + nx s * ny s) < 2 ^ 32"
  shows "\<exists>bytes f s'.
           serializeSurface P s = Inr bytes \<and> decodeFrame bytes = Some f
         \<and> type_of (header f) = MessageType_value SURFACE_FULL
         \<and> deserializeSurface P (payload f) = Inr s'
         \<and> nx s' = nx s \<and> ny s' = ny s
         \<and> xLabel (meta s') = xLabel (meta s) \<and> yLabel (meta s') = yLabel (meta s)
         \<and> zLabel (meta s') = zLabel (meta s)
         \<and> s_x s' = s_x s \<and> s_y s' = s_y s \<and> s_z s' = s_z s
         \<and> deviation (s_x s') (s_x s) + deviation (s_y s') (s_y s) + deviation (s_z s') (s_z s)
               < 1 / 10 ^ 6 * real (nx s * ny s)
         \<and> (headerSize (length (json_bytes P (meta s)))
               + padding (length (json_bytes P (meta s)))) mod 4 = 0
         \<and> padding (length (json_bytes P (meta s))) < 4
         \<and> take (length (json_bytes P (meta s))) (drop 12 (payload f)) = json_bytes P (meta s)
         \<and> drop (headerSize (length (json_bytes P (meta s)))
                   + padding (length (json_bytes P (meta s)))) (payload f)
               = concat (map (f32_bytes P) (s_x s @ s_y s @ s_z s))"
proof -
  define mb where "mb = json_bytes P (meta s)"
  define fl where "fl = concat (map (f32_bytes P) (s_x s @ s_y s @ s_z s))"
  define pl where "pl = setUint32 (nx s) @ setUint32 (ny s) @ setUint32 (length mb) @ mb
                          @ replicate (padding (length mb)) 0 @ fl"
  from assms(3) have l: "length (s_x s) = nx s" "length (s_y s) = ny s"
    "length (s_z s) = nx s * ny s" by (simp_all add: surface_shape_def)
  have lfl: "length fl = 4 * (nx s + ny s + nx s * ny s)"
    unfolding fl_def using length_store [OF assms(1), of "s_x s @ s_y s @ s_z s"] l by simp
  have lpl: "length pl = headerSize (length mb) + padding (length mb)
                           + 4 * (nx s + ny s + nx s * ny s)"
    by (simp add: pl_def lfl headerSize_def)
  from assms(7) have sz: "length pl < 2 ^ 32" unfolding lpl mb_def .
  then have n: "nx s < 2 ^ 32" "ny s < 2 ^ 32" "length mb < 2 ^ 32"
    unfolding lpl headerSize_def by simp_all
  have ser: "serializeSurface P s = Inr (encodeFrame SURFACE_FULL pl 0 0)"
    using serializeSurfacePayload_shaped [OF assms(3), of P]
    by (simp add: serializeSurface_def pl_def mb_def fl_def)
  have dec: "decodeFrame (encodeFrame SURFACE_FULL pl 0 0) = Some (frameOf SURFACE_FULL pl 0 0)"
    using sz by (intro decodeFrame_encodeFrame) simp_all
  from assms(2) obtain m where m: "json_parse P mb = Some (JsonObject m)"
    "xLabel m = xLabel (meta s)" "yLabel m = yLabel (meta s)" "zLabel m = zLabel (meta s)"
    by (auto simp: json_keeps_labels_def mb_def split: option.splits JsonValue.splits)
  have r: "\<forall>v \<in> set (s_x s @ s_y s @ s_z s). f32_representable P v"
    using assms(6) by auto
  define s' where "s' = \<lparr> s_x = s_x s, s_y = s_y s, s_z = s_z s, nx = nx s, ny = ny s, meta = m \<rparr>"
  have des: "deserializeSurface P pl = Inr s'"
    unfolding pl_def fl_def s'_def
    using assms(1) n m(1) l r by (rule deserialize_payload)
  have dev: "deviation (s_x s') (s_x s) + deviation (s_y s') (s_y s) + deviation (s_z s') (s_z s)
               < 1 / 10 ^ 6 * real (nx s * ny s)"
    using assms(4,5) by (simp add: s'_def deviation_self)
  have lay: "take (length mb) (drop 12 pl) = mb"
    "drop (headerSize (length mb) + padding (length mb)) pl = fl"
    by (simp_all add: pl_def headerSize_def)
  have pf: "payload (frameOf SURFACE_FULL pl 0 0) = pl"
    "type_of (header (frameOf SURFACE_FULL pl 0 0)) = MessageType_value SURFACE_FULL"
    by (simp_all add: frameOf_def)
  show ?thesis
    apply (rule exI [of _ "encodeFrame SURFACE_FULL pl 0 0"])
    apply (rule exI [of _ "frameOf SURFACE_FULL pl 0 0"])
    apply (rule exI [of _ s'])
    unfolding pf
    using ser dec des dev lay m(2-4) padding_aligns [of "length mb"]
    unfolding mb_def [symmetric] fl_def [symmetric]
    by (simp add: s'_def)
qed


theorem surface_codec_roundtrip_witness:
  "f32_width example_platform
   \<and> surface_shape
     \<lparr> s_x = [1, 2], s_y = [10], s_z = [3, 4], nx = 2, ny = 1,
       meta = \<lparr> xLabel = ''T'', yLabel = ''K'', zLabel = ''IV'',
                xDomain = (Finite 1, Finite 2), yDomain = (Finite 10, Finite 10),
                zDomain = (Finite 3, Finite 4), timestamp = 0 \<rparr> \<rparr>
   \<and> (\<exists>bytes f s'.
         serializeSurface example_platform
     \<lparr> s_x = [1, 2], s_y = [10], s_z = [3, 4], nx = 2, ny = 1,
       meta = \<lparr> xLabel = ''T'', yLabel = ''K'', zLabel = ''IV'',
                xDomain = (Finite 1, Finite 2), yDomain = (Finite 10, Finite 10),
                zDomain = (Finite 3, Finite 4), timestamp = 0 \<rparr> \<rparr> = Inr bytes
       \<and> decodeFrame bytes = Some f
       \<and> deserializeSurface example_platform (payload f) = Inr s'
       \<and> nx s' = 2 \<and> ny s' = 1
       \<and> xLabel (meta s') = ''T'' \<and> yLabel (meta s') = ''K'' \<and> zLabel (meta s') = ''IV''
       \<and> s_x s' = [1, 2] \<and> s_y s' = [10] \<and> s_z s' = [3, 4])"
proof -
  define s where "s = \<lparr> s_x = [1, 2], s_y = [10], s_z = [3, 4], nx = 2, ny = 1,
       meta = \<lparr> xLabel = ''T'', yLabel = ''K'', zLabel = ''IV'',
                xDomain = (Finite 1, Finite 2), yDomain = (Finite 10, Finite 10),
                zDomain = (Finite 3, Finite 4), timestamp = 0 \<rparr> \<rparr>"
  have w: "f32_width example_platform"
    by (simp add: f32_width_def example_platform_def)
  have mb: "json_bytes example_platform (meta s) = [1, 84, 1, 75, 2, 73, 86]"
    by (simp add: example_platform_def s_def label_bytes_def)
  have c: "char_of (84 :: nat) = CHR ''T''" "char_of (75 :: nat) = CHR ''K''"
    "char_of (73 :: nat) = CHR ''I''" "char_of (86 :: nat) = CHR ''V''"
    by code_simp+
  have j: "json_keeps_labels example_platform (meta s)"
    unfolding json_keeps_labels_def mb
    by (simp add: example_platform_def s_def Let_def c)
  have sh: "surface_shape s" by (simp add: surface_shape_def s_def)
  have n: "1 \<le> nx s" "1 \<le> ny s" by (simp_all add: s_def)
  have rep: "f32_representable example_platform (real k)" if "k < 2 ^ 32" for k
    using getUint32_setUint32 [OF that, of "[]"]
    by (simp add: f32_representable_def fround_def example_platform_def)
  have r: "\<forall>v \<in> set (s_x s) \<union> set (s_y s) \<union> set (s_z s). f32_representable example_platform v"
    using rep [of 1] rep [of 2] rep [of 10] rep [of 3] rep [of 4] by (simp add: s_def)
  have sz: "headerSize (length (json_bytes example_platform (meta s)))
           + padding (length (json_bytes example_platform (meta s)))
           + 4 * (nx s + ny s + nx s * ny s) < 2 ^ 32"
    unfolding mb by (simp add: headerSize_def padding_def s_def)
  from surface_codec_roundtrip [OF w j sh n r sz]
  obtain bytes f s' where
    "serializeSurface example_platform s = Inr bytes" "decodeFrame bytes = Some f"
    "deserializeSurface example_platform (payload f) = Inr s'"
    "nx s' = nx s" "ny s' = ny s"
    "xLabel (meta s') = xLabel (meta s)" "yLabel (meta s') = yLabel (meta s)"
    "zLabel (meta s') = zLabel (meta s)"
    "s_x s' = s_x s" "s_y s' = s_y s" "s_z s' = s_z s"
    by blast
  then have "\<exists>bytes f s'.
         serializeSurface example_platform s = Inr bytes
       \<and> decodeFrame bytes = Some f
       \<and> deserializeSurface example_platform (payload f) = Inr s'
       \<and> nx s' = 2 \<and> ny s' = 1
       \<and> xLabel (meta s') = ''T'' \<and> yLabel (meta s') = ''K'' \<and> zLabel (meta s') = ''IV''
       \<and> s_x s' = [1, 2] \<and> s_y s' = [10] \<and> s_z s' = [3, 4]"
    by (intro exI [of _ bytes] exI [of _ f] exI [of _ s']) (simp add: s_def)
  with w sh show ?thesis unfolding s_def by blast
qed


section \<open>Properties of the binary64 rounding\<close>

text \<open>
  The rounding is sign-symmetric, monotone and idempotent; these are the facts the
  comparisons of rounded quantities below rest on.
\<close>

lemma pow2_powi: "pow2 e = 2 powi e"
  by (simp add: pow2_def power_int_def divide_simps)



lemma pow2_Suc: "pow2 (e + 1) = 2 * pow2 e"
  unfolding pow2_powi by (subst power_int_add_1') simp_all





























section \<open>Properties of the arbitrage checks\<close>


lemma enforce_loop_early:
  "enforce_loop n iter tol c = Inr (s', k) \<Longrightarrow> k < n + iter \<Longrightarrow>
     \<exists>r. checkAllArbitrage s' tol = Inr r \<and> arbitrageFree r"
proof (induction n arbitrary: iter c)
  case 0
  then show ?case by simp
next
  case (Suc n)
  show ?case
  proof (cases "checkAllArbitrage c tol")
    case (Inl e)
    with Suc.prems show ?thesis by simp
  next
    case (Inr r)
    show ?thesis
    proof (cases "arbitrageFree r")
      case True
      with Inr Suc.prems have "s' = c" by simp
      with Inr True show ?thesis by simp
    next
      case False
      show ?thesis
      proof (cases "applyCorrections c (violations r)")
        case (Inl e)
        with Inr False Suc.prems show ?thesis by simp
      next
        case c': (Inr c')
        with Inr False Suc.prems have "enforce_loop n (iter + 1) tol c' = Inr (s', k)" by simp
        moreover from Suc.prems have "k < n + (iter + 1)" by simp
        ultimately show ?thesis by (rule Suc.IH)
      qed
    qed
  qed
qed

lemma arbitrageFree_iff:
  "checkAllArbitrage s tol = Inr r \<Longrightarrow>
     arbitrageFree r \<longleftrightarrow> violations r = [] \<and> total (summary r) = 0"
  by (auto simp: checkAllArbitrage_def Let_def split: sum.splits)

text \<open>
  Claim C9.  If \<open>enforceArbitrageFree\<close> returns from inside its loop, that is with the loop
  counter still below \<open>maxIterations\<close>, then \<open>checkAllArbitrage\<close> (called without a forward
  price, at the same tolerance) on the returned surface reports no violation.
\<close>

theorem enforce_early_return_is_arbitrage_free:
  assumes "enforce_rounds s maxIterations tol = Inr (s', k)" and "k < maxIterations"
  shows "enforceArbitrageFree s maxIterations tol = Inr s'
       \<and> (\<exists>r. checkAllArbitrage s' tol = Inr r \<and> arbitrageFree r \<and> violations r = []
              \<and> total (summary r) = 0)"
proof -
  from assms(1) have "enforce_loop maxIterations 0 tol (s\<lparr> s_z := s_z s \<rparr>) = Inr (s', k)"
    by (simp add: enforce_rounds_def)
  from enforce_loop_early [OF this] assms(2)
  obtain r where r: "checkAllArbitrage s' tol = Inr r" "arbitrageFree r" by auto
  with arbitrageFree_iff [OF r(1)] assms(1) show ?thesis
    by (simp add: enforceArbitrageFree_def)
qed


theorem enforce_early_return_is_arbitrage_free_witness:
  "enforce_rounds
     \<lparr> s_x = [1], s_y = [90, 100, 110], s_z = [1 / 5, 1 / 2, 1 / 5], nx = 1, ny = 3,
       meta = \<lparr> xLabel = ''T'', yLabel = ''K'', zLabel = ''IV'',
              xDomain = (Finite 1, Finite 1), yDomain = (Finite 90, Finite 110),
              zDomain = (Finite (1 / 5), Finite (1 / 2)), timestamp = 0 \<rparr> \<rparr> 3 (1 / 1000)
     = Inr (\<lparr> s_x = [1], s_y = [90, 100, 110], s_z = [1 / 5, 1 / 5, 1 / 5], nx = 1, ny = 3,
       meta = \<lparr> xLabel = ''T'', yLabel = ''K'', zLabel = ''IV'',
              xDomain = (Finite 1, Finite 1), yDomain = (Finite 90, Finite 110),
              zDomain = (Finite (1 / 5), Finite (1 / 2)), timestamp = 0 \<rparr> \<rparr>, 1)
   \<and> (1 :: nat) < 3
   \<and> enforceArbitrageFree
     \<lparr> s_x = [1], s_y = [90, 100, 110], s_z = [1 / 5, 1 / 2, 1 / 5], nx = 1, ny = 3,
       meta = \<lparr> xLabel = ''T'', yLabel = ''K'', zLabel = ''IV'',
              xDomain = (Finite 1, Finite 1), yDomain = (Finite 90, Finite 110),
              zDomain = (Finite (1 / 5), Finite (1 / 2)), timestamp = 0 \<rparr> \<rparr> 3 (1 / 1000)
     = Inr \<lparr> s_x = [1], s_y = [90, 100, 110], s_z = [1 / 5, 1 / 5, 1 / 5], nx = 1, ny = 3,
       meta = \<lparr> xLabel = ''T'', yLabel = ''K'', zLabel = ''IV'',
              xDomain = (Finite 1, Finite 1), yDomain = (Finite 90, Finite 110),
              zDomain = (Finite (1 / 5), Finite (1 / 2)), timestamp = 0 \<rparr> \<rparr>
   \<and> (\<exists>r. checkAllArbitrage
     \<lparr> s_x = [1], s_y = [90, 100, 110], s_z = [1 / 5, 1 / 5, 1 / 5], nx = 1, ny = 3,
       meta = \<lparr> xLabel = ''T'', yLabel = ''K'', zLabel = ''IV'',
              xDomain = (Finite 1, Finite 1), yDomain = (Finite 90, Finite 110),
              zDomain = (Finite (1 / 5), Finite (1 / 2)), timestamp = 0 \<rparr> \<rparr> (1 / 1000) = Inr r
        \<and> arbitrageFree r \<and> violations r = [] \<and> total (summary r) = 0)"
proof -
  define s0 where "s0 = \<lparr> s_x = [1], s_y = [90, 100, 110], s_z = [1 / 5, 1 / 2, 1 / 5], nx = 1, ny = 3,
       meta = \<lparr> xLabel = ''T'', yLabel = ''K'', zLabel = ''IV'',
              xDomain = (Finite 1, Finite 1), yDomain = (Finite 90, Finite 110),
              zDomain = (Finite (1 / 5), Finite (1 / 2)), timestamp = 0 \<rparr> \<rparr>"
  define s1 where "s1 = \<lparr> s_x = [1], s_y = [90, 100, 110], s_z = [1 / 5, 1 / 5, 1 / 5], nx = 1, ny = 3,
       meta = \<lparr> xLabel = ''T'', yLabel = ''K'', zLabel = ''IV'',
              xDomain = (Finite 1, Finite 1), yDomain = (Finite 90, Finite 110),
              zDomain = (Finite (1 / 5), Finite (1 / 2)), timestamp = 0 \<rparr> \<rparr>"
  define v where "v = \<lparr> vtype = butterfly, severity = severe,
       location = \<lparr> loc_x1 = 1, loc_x2 = None, loc_y = 100 \<rparr>, violation = 3 / 10 \<rparr>"
  have chk0: "checkAllArbitrage s0 (1 / 1000) = Inr \<lparr> arbitrageFree = False,
      violations = [v],
      summary = \<lparr> n_calendar = 0, n_butterfly = 1, n_vertical = 0, total = 1 \<rparr> \<rparr>"
    unfolding s0_def v_def by code_simp
  have chk1: "checkAllArbitrage s1 (1 / 1000) = Inr \<lparr> arbitrageFree = True,
      violations = [],
      summary = \<lparr> n_calendar = 0, n_butterfly = 0, n_vertical = 0, total = 0 \<rparr> \<rparr>"
    unfolding s1_def by code_simp
  have fix0: "applyCorrections s0 [v] = Inr s1"
    by (simp add: applyCorrections_def fixButterfly_def s0_def s1_def v_def vget_def)
  have "s0\<lparr> s_z := s_z s0 \<rparr> = s0" by simp
  then have e: "enforce_rounds s0 3 (1 / 1000) = Inr (s1, 1)"
    by (simp add: numeral_3_eq_3 enforce_rounds_def chk0 fix0 chk1)
  have l: "(1 :: nat) < 3" by simp
  from enforce_early_return_is_arbitrage_free [OF e l] e l
  show ?thesis unfolding s0_def s1_def by blast
qed


section \<open>The calendar check under binary64 rounding\<close>











text \<open>
  Rounding decides the outcome: with \<open>x = [1, 1 + 2\<^sup>-\<^sup>2\<^sup>9]\<close> and \<open>z = [1 + 2\<^sup>-\<^sup>3\<^sup>0, 1]\<close> the exact
  variances differ by \<open>2\<^sup>-\<^sup>6\<^sup>0\<close>, the computed ones are equal, and nothing is reported at
  tolerance 0.
\<close>

lemma calendar64_rounding_example:
  "checkCalendarArbitrage64
     \<lparr> x64 = [1, 1 + 1 / 2 ^ 29], y64 = [100], z64 = [1 + 1 / 2 ^ 30, 1],
       nx64 = 2, ny64 = 1 \<rparr> 0 = Inr []
   \<and> (1 :: rat) * 1 * (1 + 1 / 2 ^ 29) < (1 + 1 / 2 ^ 30) * (1 + 1 / 2 ^ 30) * 1 - 0"
  by code_simp





section \<open>Properties of the risk metrics\<close>

lemma sum_list_cross_bound:
  fixes a :: real
  shows "2 * a * sum_list ms \<le> (\<Sum>m\<leftarrow>ms. m * m) + real (length ms) * (a * a)"
proof (induction ms)
  case Nil
  then show ?case by simp
next
  case (Cons m ms)
  have "2 * a * m \<le> m * m + a * a"
    using sum_squares_bound [of a m] by (simp add: power2_eq_square)
  with Cons show ?case by (simp add: algebra_simps)
qed

lemma sum_list_square_bound:
  fixes ms :: "real list"
  shows "sum_list ms * sum_list ms \<le> real (length ms) * (\<Sum>m\<leftarrow>ms. m * m)"
proof (induction ms)
  case Nil
  then show ?case by simp
next
  case (Cons a ms)
  have "(a + sum_list ms) * (a + sum_list ms)
          = a * a + 2 * a * sum_list ms + sum_list ms * sum_list ms"
    by (simp add: algebra_simps)
  also have "\<dots> \<le> a * a + ((\<Sum>m\<leftarrow>ms. m * m) + real (length ms) * (a * a))
                    + real (length ms) * (\<Sum>m\<leftarrow>ms. m * m)"
    using sum_list_cross_bound [of a ms] Cons by linarith
  also have "\<dots> = real (length (a # ms)) * (\<Sum>m\<leftarrow>a # ms. m * m)"
    by (simp add: algebra_simps)
  finally show ?case by simp
qed

lemma variance_nonneg:
  fixes ms :: "real list"
  assumes "ms \<noteq> []"
  shows "0 \<le> (\<Sum>m\<leftarrow>ms. m * m) / real (length ms)
               - sum_list ms / real (length ms) * (sum_list ms / real (length ms))"
proof -
  define n where "n = real (length ms)"
  have n: "0 < n" using assms by (simp add: n_def)
  have "sum_list ms * sum_list ms \<le> n * (\<Sum>m\<leftarrow>ms. m * m)"
    unfolding n_def by (rule sum_list_square_bound)
  then have "sum_list ms * sum_list ms / (n * n) \<le> n * (\<Sum>m\<leftarrow>ms. m * m) / (n * n)"
    using n by (intro divide_right_mono) simp_all
  then have "sum_list ms / n * (sum_list ms / n) \<le> (\<Sum>m\<leftarrow>ms. m * m) / n"
    using n by simp
  then show ?thesis unfolding n_def by simp
qed

lemma risk_loop_result:
  assumes "\<forall>i \<in> set is. i < length (magnitude slope) \<and> i < length (dz_dx slope)
              \<and> i < length (dz_dy slope)"
  shows "\<exists>a'. risk_loop slope is a = Inr a'
     \<and> acc_sumSlope a' = acc_sumSlope a + (\<Sum>i\<leftarrow>is. magnitude slope ! i)
     \<and> acc_sumSlopeSq a' = acc_sumSlopeSq a + (\<Sum>i\<leftarrow>is. magnitude slope ! i * magnitude slope ! i)
     \<and> acc_sumTermSlope a' = acc_sumTermSlope a + (\<Sum>i\<leftarrow>is. dz_dx slope ! i)
     \<and> acc_maxSlope a \<le> acc_maxSlope a'
     \<and> (\<forall>M. acc_maxSlope a \<le> M \<and> (\<forall>i \<in> set is. magnitude slope ! i \<le> M)
            \<longrightarrow> acc_maxSlope a' \<le> M)"
  using assms
proof (induction "is" arbitrary: a)
  case Nil
  then show ?case by simp
next
  case (Cons i rest)
  define b where "b = \<lparr> acc_maxSlope = max (acc_maxSlope a) (magnitude slope ! i),
              acc_sumSlope = acc_sumSlope a + magnitude slope ! i,
              acc_sumSlopeSq = acc_sumSlopeSq a + magnitude slope ! i * magnitude slope ! i,
              acc_upwardCount = (if dz_dy slope ! i > 0 then acc_upwardCount a + 1 else acc_upwardCount a),
              acc_sumTermSlope = acc_sumTermSlope a + dz_dx slope ! i,
              acc_sumSmile = acc_sumSmile a + \<bar>dz_dy slope ! i\<bar> \<rparr>"
  from Cons.prems have step: "risk_loop slope (i # rest) a = risk_loop slope rest b"
    by (simp add: vget_def b_def)
  from Cons.prems have "\<forall>i \<in> set rest. i < length (magnitude slope) \<and> i < length (dz_dx slope)
              \<and> i < length (dz_dy slope)" by simp
  from Cons.IH [OF this, of b] obtain a' where a': "risk_loop slope rest b = Inr a'"
     "acc_sumSlope a' = acc_sumSlope b + (\<Sum>i\<leftarrow>rest. magnitude slope ! i)"
     "acc_sumSlopeSq a' = acc_sumSlopeSq b + (\<Sum>i\<leftarrow>rest. magnitude slope ! i * magnitude slope ! i)"
     "acc_sumTermSlope a' = acc_sumTermSlope b + (\<Sum>i\<leftarrow>rest. dz_dx slope ! i)"
     "acc_maxSlope b \<le> acc_maxSlope a'"
     "\<forall>M. acc_maxSlope b \<le> M \<and> (\<forall>i \<in> set rest. magnitude slope ! i \<le> M)
            \<longrightarrow> acc_maxSlope a' \<le> M"
    by blast
  have b: "acc_sumSlope b = acc_sumSlope a + magnitude slope ! i"
    "acc_sumSlopeSq b = acc_sumSlopeSq a + magnitude slope ! i * magnitude slope ! i"
    "acc_sumTermSlope b = acc_sumTermSlope a + dz_dx slope ! i"
    "acc_maxSlope b = max (acc_maxSlope a) (magnitude slope ! i)"
    by (simp_all add: b_def)
  have "\<forall>M. acc_maxSlope a \<le> M \<and> (\<forall>k \<in> set (i # rest). magnitude slope ! k \<le> M)
            \<longrightarrow> acc_maxSlope a' \<le> M"
    using a'(6) b(4) by simp
  moreover have "acc_maxSlope a \<le> acc_maxSlope a'" using a'(5) b(4) by simp
  ultimately show ?case
    unfolding step using a'(1-4) b(1-3) by simp
qed


lemma sum_list_zeros:
  fixes f :: "real \<Rightarrow> real"
  shows "(\<forall>v \<in> set vs. f v = 0) \<Longrightarrow> (\<Sum>v\<leftarrow>vs. f v) = 0"
  by (induction vs) simp_all

lemma computeRiskMetrics_exact:
  assumes "magnitude slope \<noteq> []"
    and "length (dz_dx slope) = length (magnitude slope)"
    and "length (dz_dy slope) = length (magnitude slope)"
  shows "\<exists>m. computeRiskMetrics slope nx0 ny0 = Inr m
     \<and> riskScore m = 0.4 * min 1 (maxSlope m / 2) + 0.3 * min 1 (sqrt (slopeVariance m) / 0.5)
                      + 0.3 * min 1 (\<bar>termStructureSteepness m\<bar> / 0.5)
     \<and> 0 \<le> riskScore m \<and> riskScore m \<le> 1
     \<and> ((\<forall>v \<in> set (magnitude slope). v = 0) \<and> (\<forall>v \<in> set (dz_dx slope). v = 0)
          \<longrightarrow> riskScore m = 0)"
proof -
  define ms where "ms = magnitude slope"
  define n where "n = length ms"
  define a0 where "a0 = \<lparr> acc_maxSlope = 0, acc_sumSlope = 0, acc_sumSlopeSq = 0,
      acc_upwardCount = 0, acc_sumTermSlope = 0, acc_sumSmile = 0 \<rparr>"
  have n: "0 < n" using assms(1) by (simp add: n_def ms_def)
  have "\<forall>i \<in> set [0 ..< n]. i < length (magnitude slope) \<and> i < length (dz_dx slope)
              \<and> i < length (dz_dy slope)"
    using assms(2,3) by (simp add: n_def ms_def)
  from risk_loop_result [OF this, of a0]
  obtain a where a: "risk_loop slope [0 ..< n] a0 = Inr a"
     "acc_sumSlope a = acc_sumSlope a0 + (\<Sum>i\<leftarrow>[0 ..< n]. magnitude slope ! i)"
     "acc_sumSlopeSq a = acc_sumSlopeSq a0
        + (\<Sum>i\<leftarrow>[0 ..< n]. magnitude slope ! i * magnitude slope ! i)"
     "acc_sumTermSlope a = acc_sumTermSlope a0 + (\<Sum>i\<leftarrow>[0 ..< n]. dz_dx slope ! i)"
     "acc_maxSlope a0 \<le> acc_maxSlope a"
     "\<forall>M. acc_maxSlope a0 \<le> M \<and> (\<forall>i \<in> set [0 ..< n]. magnitude slope ! i \<le> M)
            \<longrightarrow> acc_maxSlope a \<le> M"
    by blast
  have m1: "map (\<lambda>i. magnitude slope ! i) [0 ..< n] = ms"
    unfolding n_def ms_def by (rule map_nth)
  have m2: "map (\<lambda>i. magnitude slope ! i * magnitude slope ! i) [0 ..< n] = map (\<lambda>m. m * m) ms"
    unfolding n_def ms_def by (rule nth_equalityI) simp_all
  have m3: "map (\<lambda>i. dz_dx slope ! i) [0 ..< n] = dz_dx slope"
    unfolding n_def ms_def assms(2) [symmetric] by (rule map_nth)
  have s1: "acc_sumSlope a = sum_list ms" using a(2) by (simp add: a0_def m1)
  have s2: "acc_sumSlopeSq a = (\<Sum>m\<leftarrow>ms. m * m)" using a(3) by (simp add: a0_def m2)
  have s3: "acc_sumTermSlope a = sum_list (dz_dx slope)" using a(4) by (simp add: a0_def m3)
  have mx: "0 \<le> acc_maxSlope a" using a(5) by (simp add: a0_def)
  define var where "var = acc_sumSlopeSq a / real n - acc_sumSlope a / real n * (acc_sumSlope a / real n)"
  have var: "0 \<le> var"
    unfolding var_def s1 s2 n_def using variance_nonneg [of ms] assms(1) by (simp add: ms_def)
  define nmax where "nmax = min 1 (acc_maxSlope a / 2)"
  define nvar where "nvar = min 1 (sqrt var / 0.5)"
  define nterm where "nterm = min 1 (\<bar>acc_sumTermSlope a / real n\<bar> / 0.5)"
  obtain high flat where z: "zones slope (acc_maxSlope a * 0.7) (acc_maxSlope a * 0.1) nx0 ny0
      = (high, flat)" by (cases "zones slope (acc_maxSlope a * 0.7) (acc_maxSlope a * 0.1) nx0 ny0")
  define m where "m = \<lparr> maxSlope = acc_maxSlope a,
                          avgSlope = acc_sumSlope a / real n,
                          slopeVariance = var,
                          upwardBias = real (acc_upwardCount a) / real n,
                          termStructureSteepness = acc_sumTermSlope a / real n,
                          smileSteepness = acc_sumSmile a / real n,
                          highRiskZones = take 10 (sort_key (\<lambda>z. - zone_magnitude z) high),
                          flatZones = take 10 flat,
                          riskScore = nmax * 0.4 + nvar * 0.3 + nterm * 0.3 \<rparr>"
  have r: "computeRiskMetrics slope nx0 ny0 = Inr m"
    using n var a(1) z
    unfolding computeRiskMetrics_def Let_def ms_def [symmetric] n_def [symmetric] a0_def [symmetric]
    by (simp add: m_def var_def nmax_def nvar_def nterm_def)
  have f: "riskScore m = 0.4 * min 1 (maxSlope m / 2) + 0.3 * min 1 (sqrt (slopeVariance m) / 0.5)
                      + 0.3 * min 1 (\<bar>termStructureSteepness m\<bar> / 0.5)"
    by (simp add: m_def nmax_def nvar_def nterm_def)
  have b1: "0 \<le> nmax" "nmax \<le> 1" using mx by (simp_all add: nmax_def)
  have b2: "0 \<le> nvar" "nvar \<le> 1" using var by (simp_all add: nvar_def)
  have b3: "0 \<le> nterm" "nterm \<le> 1" by (simp_all add: nterm_def)
  have rs: "riskScore m = nmax * 0.4 + nvar * 0.3 + nterm * 0.3" by (simp add: m_def)
  have lo: "0 \<le> riskScore m" unfolding rs using b1 b2 b3 by simp
  have hi: "riskScore m \<le> 1" unfolding rs using b1 b2 b3 by simp
  have zero: "riskScore m = 0"
    if h: "(\<forall>v \<in> set (magnitude slope). v = 0) \<and> (\<forall>v \<in> set (dz_dx slope). v = 0)"
  proof -
    have z1: "sum_list ms = 0"
      using h sum_list_zeros [of ms "\<lambda>v. v"] by (simp add: ms_def)
    have z2: "(\<Sum>m\<leftarrow>ms. m * m) = 0"
      using h sum_list_zeros [of ms "\<lambda>v. v * v"] by (simp add: ms_def)
    have z3: "sum_list (dz_dx slope) = 0"
      using h sum_list_zeros [of "dz_dx slope" "\<lambda>v. v"] by simp
    have "\<forall>i \<in> set [0 ..< n]. magnitude slope ! i \<le> 0"
    proof
      fix i assume "i \<in> set [0 ..< n]"
      then have "magnitude slope ! i \<in> set (magnitude slope)"
        by (simp add: n_def ms_def)
      with h show "magnitude slope ! i \<le> 0" by auto
    qed
    with a(6) have "acc_maxSlope a \<le> 0" by (simp add: a0_def)
    with mx have z4: "acc_maxSlope a = 0" by simp
    show ?thesis
      unfolding rs nmax_def nvar_def nterm_def var_def s1 s2 s3 z1 z2 z3 z4 by simp
  qed
  from r f lo hi zero show ?thesis by blast
qed

text \<open>
  Claim C5.  In exact arithmetic the claim holds (lemma \<open>computeRiskMetrics_exact\<close>): the
  variance is non-negative, so the score is the stated combination and lies in \<open>[0, 1]\<close>.
  The program, however, computes the variance in binary64 as
  \<^verbatim>\<open>sumSlopeSq / n - avgSlope * avgSlope\<close>, and rounding can make it negative.  For the
  constant slope field \<open>magnitude = [0.1, 0.1, 0.1]\<close> it is \<open>-2^(-59)\<close>; \<^verbatim>\<open>Math.sqrt\<close> of a
  negative number is NaN, and so is the risk score.
\<close>

theorem slopeVariance_binary64_negative:
  "slopeVariance_binary64 [binary64 (1 / 10), binary64 (1 / 10), binary64 (1 / 10)]
     = - (1 / 2 ^ 59)
   \<and> slopeVariance_binary64 [binary64 (1 / 10), binary64 (1 / 10), binary64 (1 / 10)] < 0"
  by code_simp

lemma binary64_examples:
  "binary64 (1 / 10) = 3602879701896397 / 2 ^ 55"
  "binary64 (3 / 10) = 5404319552844595 / 2 ^ 54"
  "binary64 (1 / 3) = 6004799503160661 / 2 ^ 54"
  "binary64 (1 + 1 / 2 ^ 53) = 1"
  "binary64 (1 + 3 / 2 ^ 53) = 1 + 1 / 2 ^ 51"
  "binary64 (- (1 / 10)) = - (3602879701896397 / 2 ^ 55)"
  by code_simp+


end
